theory Spec2Isabelle
  imports Main
begin

section \<open>The USN watcher stream consumer (examples/watch\_stream.py)\<close>

text \<open>
  The script reads newline-delimited JSON either line by line from standard input
  (\<open>read_from_stdin\<close>) or as raw byte chunks from a named pipe (\<open>read_from_named_pipe\<close>),
  decodes every record and passes the decoded event to \<open>handle_event\<close>.

  Bytes are \<open>char\<close> (HOL's 8-bit character), a Python \<open>str\<close> is a list of code points.
\<close>

type_synonym bytes = "char list"

type_synonym pystr = "nat list"

definition str :: "string \<Rightarrow> pystr" where
  \<comment> \<open>a literal of the source, as code points\<close>
  "str s = map of_char s"

definition nl :: char where
  \<comment> \<open>the byte \<open>b'\n'\<close>\<close>
  "nl = CHR 0x0A"

subsection \<open>Python values and exceptions\<close>

text \<open>
  The exception classes that the script's \<open>except\<close> clauses tell apart, and the ones its
  own statements can raise. \<open>KeyboardInterrupt\<close> stands for the classes that derive from
  \<open>BaseException\<close> only; every other class derives from \<open>Exception\<close>.
  \<open>PipeError\<close> is \<open>pywintypes.error\<close>, which \<open>win32file.ReadFile\<close> and
  \<open>win32file.CreateFile\<close> raise. \<open>RecursionError\<close> and \<open>ValueError\<close> are what
  \<open>json.loads\<close> raises, instead of its \<open>JSONDecodeError\<close>, on a document nested too
  deeply and on an integer literal of more digits than the interpreter converts.
\<close>

datatype py_exc =
    JSONDecodeError | UnicodeDecodeError | AttributeError | TypeError | KeyError
  | RecursionError | ValueError | PipeError | KeyboardInterrupt

fun is_Exception :: "py_exc \<Rightarrow> bool" where
  "is_Exception KeyboardInterrupt = False"
| "is_Exception _ = True"

text \<open>
  A Python float is a dyadic number \<open>m * 2 ^ e\<close>, an infinity or a NaN; \<open>json.loads\<close>
  produces the last two from the literals \<open>Infinity\<close>, \<open>-Infinity\<close> and \<open>NaN\<close>.
\<close>

datatype py_float = Float_num int int | Float_inf bool | Float_nan

text \<open>The values \<open>json.loads\<close> returns. A \<open>dict\<close> is an association list, looked up
  with \<open>map_of\<close>.\<close>

datatype json =
    JNull | JBool bool | JInt int | JFloat py_float | JStr pystr
  | JList "json list" | JDict "(pystr \<times> json) list"

fun truthy :: "json \<Rightarrow> bool" where
  \<comment> \<open>Python's truth value of an object\<close>
  "truthy JNull = False"
| "truthy (JBool b) = b"
| "truthy (JInt i) = (i \<noteq> 0)"
| "truthy (JFloat (Float_num m e)) = (m \<noteq> 0)"
| "truthy (JFloat _) = True"
| "truthy (JStr s) = (s \<noteq> [])"
| "truthy (JList xs) = (xs \<noteq> [])"
| "truthy (JDict d) = (d \<noteq> [])"

definition py_get :: "(pystr \<times> json) list \<Rightarrow> pystr \<Rightarrow> json \<Rightarrow> json" where
  \<comment> \<open>\<open>d.get(k, dflt)\<close>; \<open>d.get(k)\<close> is \<open>py_get d k JNull\<close>\<close>
  "py_get d k dflt = (case map_of d k of None \<Rightarrow> dflt | Some v \<Rightarrow> v)"

definition py_or :: "json \<Rightarrow> json \<Rightarrow> json" where
  \<comment> \<open>\<open>a or b\<close>\<close>
  "py_or a b = (if truthy a then a else b)"

fun is_substr :: "'a list \<Rightarrow> 'a list \<Rightarrow> bool" where
  "is_substr ns [] = (ns = [])"
| "is_substr ns (x # xs) = (take (length ns) (x # xs) = ns \<or> is_substr ns xs)"

fun py_in :: "pystr \<Rightarrow> json \<Rightarrow> py_exc + bool" where
  \<comment> \<open>\<open>s in v\<close> for a string \<open>s\<close>: a substring test on a string, membership in a list,
      a key test on a dict, \<open>TypeError\<close> on a value that is not a container\<close>
  "py_in s (JStr t) = Inr (is_substr s t)"
| "py_in s (JList xs) = Inr (JStr s \<in> set xs)"
| "py_in s (JDict d) = Inr (s \<in> set (map fst d))"
| "py_in s _ = Inl TypeError"

fun py_slice_11_23 :: "json \<Rightarrow> py_exc + json" where
  \<comment> \<open>\<open>v[11:23]\<close>: strings and lists are sliced, a dict has no slice for a key
      (\<open>KeyError\<close>; \<open>TypeError\<close> before Python 3.12), other values are not subscriptable\<close>
  "py_slice_11_23 (JStr t) = Inr (JStr (take 12 (drop 11 t)))"
| "py_slice_11_23 (JList xs) = Inr (JList (take 12 (drop 11 xs)))"
| "py_slice_11_23 (JDict d) = Inl KeyError"
| "py_slice_11_23 _ = Inl TypeError"

fun py_rsplit_dot_last :: "json \<Rightarrow> py_exc + pystr" where
  \<comment> \<open>\<open>v.rsplit('.', 1)[-1]\<close>: what follows the last dot of a string; only \<open>str\<close> has
      the method\<close>
  "py_rsplit_dot_last (JStr t) = Inr (rev (takeWhile (\<lambda>c. c \<noteq> 46) (rev t)))"
| "py_rsplit_dot_last _ = Inl AttributeError"

subsection \<open>The event handler (lines 72--85)\<close>

record fields =
  reasons :: json
  filename :: json
  timestamp :: json
  is_dir :: json

fun event_fields :: "json \<Rightarrow> py_exc + fields" where
  \<comment> \<open>lines 77--80; only a dict has \<open>get\<close>\<close>
  "event_fields (JDict d) = Inr
     \<lparr> reasons = py_get d (str ''reasons'') (JList []),
       filename = py_or (py_get d (str ''fullPath'') JNull) (py_get d (str ''fileName'') (JStr [])),
       timestamp = py_get d (str ''timestamp'') (JStr []),
       is_dir = py_get d (str ''isDirectory'') (JBool False) \<rparr>"
| "event_fields _ = Inl AttributeError"

text \<open>The line printed at line 85, as the three values the format string interpolates:
  the timestamp slice, the extension and the file name. The \<open>print\<close> is taken to
  succeed; on a console that cannot encode the line it raises \<open>UnicodeEncodeError\<close>.\<close>

datatype event_line = Event_line json pystr json

definition file_ext :: "json \<Rightarrow> py_exc + pystr" where
  \<comment> \<open>line 84\<close>
  "file_ext f =
     (case py_in (str ''.'') f of
        Inl e \<Rightarrow> Inl e
      | Inr has_dot \<Rightarrow> if has_dot then py_rsplit_dot_last f else Inr [])"

definition handle_event :: "json \<Rightarrow> py_exc + event_line list" where
  "handle_event event =
     (case event_fields event of
        Inl e \<Rightarrow> Inl e
      | Inr f \<Rightarrow>
         (case py_in (str ''CLOSE'') (reasons f) of
            Inl e \<Rightarrow> Inl e
          | Inr closed \<Rightarrow>
              if closed \<and> \<not> truthy (is_dir f) then
                (case file_ext (filename f) of
                   Inl e \<Rightarrow> Inl e
                 | Inr ext \<Rightarrow>
                    (case py_slice_11_23 (timestamp f) of
                       Inl e \<Rightarrow> Inl e
                     | Inr ts \<Rightarrow> Inr [Event_line ts ext (filename f)]))
              else Inr []))"

subsection \<open>What the readers do to the outside\<close>

text \<open>
  The readers return nothing; what they do is call the handler and print. \<open>calls\<close> is the
  sequence of events the handler has been called with, \<open>stdout\<close> what has been printed,
  by the reader or by the handler.

  The script calls \<open>handle_event\<close>, whose docstring invites the user to replace its body.
  The readers are therefore modelled over any handler \<open>h\<close>, which returns what it prints
  or raises, and over the library's \<open>json.loads\<close>, which returns a value or raises:
  \<open>JSONDecodeError\<close> on a text that is not JSON, and on some texts an exception of
  another class, which the \<open>except\<close> clauses of lines 29 and 63 do not catch.
  \<open>bytes.decode('utf-8')\<close> returns a string or raises \<open>UnicodeDecodeError\<close> (\<open>None\<close>).
  Left out: a failure of \<open>print\<close> itself (a console that cannot encode the line), and the
  two \<open>import\<close> statements of \<open>read_from_named_pipe\<close>.
\<close>

datatype 'o line = Connecting | Connected | Pipe_disconnected py_exc | Handler_output 'o

record ('ev, 'o) world =
  calls :: "'ev list"
  stdout :: "'o line list"

definition print :: "'o line \<Rightarrow> ('ev, 'o) world \<Rightarrow> ('ev, 'o) world" where
  "print l w = w\<lparr>stdout := stdout w @ [l]\<rparr>"

definition call_handler ::
  "('ev \<Rightarrow> py_exc + 'o list) \<Rightarrow> 'ev \<Rightarrow> ('ev, 'o) world \<Rightarrow> py_exc option \<times> ('ev, 'o) world" where
  \<comment> \<open>\<open>handle_event(event)\<close>: the call is recorded, then the handler prints or raises\<close>
  "call_handler h ev w =
     (let w' = w\<lparr>calls := calls w @ [ev]\<rparr> in
      case h ev of
        Inl e \<Rightarrow> (Some e, w')
      | Inr out \<Rightarrow> (None, w'\<lparr>stdout := stdout w' @ map Handler_output out\<rparr>))"

subsection \<open>Option A: the line reader (lines 21--30)\<close>

definition py_isspace :: "nat \<Rightarrow> bool" where
  \<comment> \<open>the code points \<open>str.strip()\<close> removes\<close>
  "py_isspace c =
     ((9 \<le> c \<and> c \<le> 13) \<or> (28 \<le> c \<and> c \<le> 32) \<or> c = 133 \<or> c = 160 \<or> c = 5760
      \<or> (8192 \<le> c \<and> c \<le> 8202) \<or> c = 8232 \<or> c = 8233 \<or> c = 8239 \<or> c = 8287
      \<or> c = 12288)"

definition py_strip :: "pystr \<Rightarrow> pystr" where
  "py_strip t = rev (dropWhile py_isspace (rev (dropWhile py_isspace t)))"

text \<open>
  The argument is the list of lines that iterating over \<open>sys.stdin\<close> yields, each a
  \<open>str\<close> that the text layer has decoded already; the loop ends with the list. The result
  is the exception that leaves the function, if any.
\<close>

fun read_from_stdin ::
  "(pystr \<Rightarrow> py_exc + 'ev) \<Rightarrow> ('ev \<Rightarrow> py_exc + 'o list) \<Rightarrow> pystr list \<Rightarrow> ('ev, 'o) world
     \<Rightarrow> py_exc option \<times> ('ev, 'o) world" where
  "read_from_stdin loads h [] w = (None, w)"
| "read_from_stdin loads h (l # ls) w =
     (let line = py_strip l in
      if line = [] then read_from_stdin loads h ls w
      else
        (case loads line of
           Inl e \<Rightarrow>
             if e = JSONDecodeError then read_from_stdin loads h ls w
             else (Some e, w)
         | Inr event \<Rightarrow>
            (case call_handler h event w of
               (None, w') \<Rightarrow> read_from_stdin loads h ls w'
             | (Some e, w') \<Rightarrow>
                 if e = JSONDecodeError then read_from_stdin loads h ls w'
                 else (Some e, w'))))"

subsection \<open>Option B: the named-pipe reader (lines 34--68)\<close>

definition split_once :: "bytes \<Rightarrow> bytes \<times> bytes" where
  \<comment> \<open>\<open>buffer.split(b'\n', 1)\<close> for a buffer that contains a newline\<close>
  "split_once buffer =
     (takeWhile (\<lambda>c. c \<noteq> nl) buffer, tl (dropWhile (\<lambda>c. c \<noteq> nl) buffer))"

definition process_record ::
  "(bytes \<Rightarrow> pystr option) \<Rightarrow> (pystr \<Rightarrow> py_exc + 'ev) \<Rightarrow> ('ev \<Rightarrow> py_exc + 'o list) \<Rightarrow> bytes
     \<Rightarrow> ('ev, 'o) world \<Rightarrow> py_exc option \<times> ('ev, 'o) world" where
  \<comment> \<open>lines 60--64; \<open>decode\<close> is \<open>bytes.decode('utf-8')\<close>, \<open>None\<close> its \<open>UnicodeDecodeError\<close>\<close>
  "process_record decode loads h line w =
     (case decode line of
        None \<Rightarrow> (None, w)
      | Some t \<Rightarrow>
         (case loads t of
            Inl e \<Rightarrow>
              if e = JSONDecodeError \<or> e = UnicodeDecodeError then (None, w)
              else (Some e, w)
          | Inr event \<Rightarrow>
             (case call_handler h event w of
                (None, w') \<Rightarrow> (None, w')
              | (Some e, w') \<Rightarrow>
                  if e = JSONDecodeError \<or> e = UnicodeDecodeError then (None, w')
                  else (Some e, w'))))"

lemma length_snd_split_once:
  "nl \<in> set buffer \<Longrightarrow> length (snd (split_once buffer)) < length buffer"
proof -
  assume "nl \<in> set buffer"
  then have "dropWhile (\<lambda>c. c \<noteq> nl) buffer \<noteq> []"
    by (simp add: dropWhile_eq_Nil_conv)
  then have "length (tl (dropWhile (\<lambda>c. c \<noteq> nl) buffer)) < length (dropWhile (\<lambda>c. c \<noteq> nl) buffer)"
    by simp
  also have "\<dots> \<le> length buffer"
    by (rule length_dropWhile_le)
  finally show ?thesis
    by (simp add: split_once_def)
qed

text \<open>The inner loop (lines 58--64): the exception that leaves it, the buffer and the
  world.\<close>

function extract_pass ::
  "(bytes \<Rightarrow> pystr option) \<Rightarrow> (pystr \<Rightarrow> py_exc + 'ev) \<Rightarrow> ('ev \<Rightarrow> py_exc + 'o list) \<Rightarrow> bytes
     \<Rightarrow> ('ev, 'o) world \<Rightarrow> py_exc option \<times> bytes \<times> ('ev, 'o) world" where
  "extract_pass decode loads h buffer w =
     (if nl \<in> set buffer then
        (case process_record decode loads h (fst (split_once buffer)) w of
           (None, w') \<Rightarrow> extract_pass decode loads h (snd (split_once buffer)) w'
         | (Some e, w') \<Rightarrow> (Some e, snd (split_once buffer), w'))
      else (None, buffer, w))"
  by pat_completeness auto
termination
  by (relation "measure (\<lambda>(decode, loads, h, buffer, w). length buffer)")
     (auto simp: length_snd_split_once)

declare extract_pass.simps [simp del]

text \<open>
  The outer loop (lines 52--68) on the results of the successive \<open>ReadFile\<close> calls. When
  the results given are used up the loop is \<open>Reading\<close>: blocked in the next
  \<open>ReadFile\<close>. \<open>Disconnected\<close> is the \<open>break\<close> of line 68, \<open>Propagated\<close> an exception
  that line 66 does not catch.
\<close>

datatype read_result = Data bytes | Raises py_exc

datatype status = Reading | Disconnected | Propagated py_exc

definition on_exception ::
  "py_exc \<Rightarrow> bytes \<Rightarrow> ('ev, 'o) world \<Rightarrow> status \<times> bytes \<times> ('ev, 'o) world" where
  \<comment> \<open>lines 66--68\<close>
  "on_exception e buffer w =
     (if is_Exception e then (Disconnected, buffer, print (Pipe_disconnected e) w)
      else (Propagated e, buffer, w))"

fun pipe_loop ::
  "(bytes \<Rightarrow> pystr option) \<Rightarrow> (pystr \<Rightarrow> py_exc + 'ev) \<Rightarrow> ('ev \<Rightarrow> py_exc + 'o list)
     \<Rightarrow> read_result list \<Rightarrow> bytes \<Rightarrow> ('ev, 'o) world \<Rightarrow> status \<times> bytes \<times> ('ev, 'o) world" where
  "pipe_loop decode loads h [] buffer w = (Reading, buffer, w)"
| "pipe_loop decode loads h (Raises e # rs) buffer w = on_exception e buffer w"
| "pipe_loop decode loads h (Data data # rs) buffer w =
     (case extract_pass decode loads h (buffer @ data) w of
        (None, buffer', w') \<Rightarrow> pipe_loop decode loads h rs buffer' w'
      | (Some e, buffer', w') \<Rightarrow> on_exception e buffer' w')"

definition read_from_named_pipe ::
  "(bytes \<Rightarrow> pystr option) \<Rightarrow> (pystr \<Rightarrow> py_exc + 'ev) \<Rightarrow> ('ev \<Rightarrow> py_exc + 'o list)
     \<Rightarrow> py_exc option \<Rightarrow> read_result list \<Rightarrow> ('ev, 'o) world
     \<Rightarrow> status \<times> bytes \<times> ('ev, 'o) world" where
  \<comment> \<open>\<open>opened\<close> is the outcome of \<open>CreateFile\<close> (lines 41--47), which no handler guards\<close>
  "read_from_named_pipe decode loads h opened rs w =
     (case opened of
        Some e \<Rightarrow> (Propagated e, [], print Connecting w)
      | None \<Rightarrow> pipe_loop decode loads h rs [] (print Connected (print Connecting w)))"

subsection \<open>Library functions at concrete inputs\<close>

text \<open>
  The examples below run the readers on concrete bytes, so they need the two library
  functions at those bytes: \<open>bytes.decode('utf-8')\<close>, Python's strict UTF-8 decoder
  (no overlong form, no surrogate, nothing above U+10FFFF), and \<open>json.loads\<close>, tabulated
  on the two documents the examples dispatch and on \<open>deep_brackets\<close>, a hundred thousand
  opening brackets (\<open>deep_bytes\<close> as bytes), where it raises \<open>RecursionError\<close>. Every other text that an example
  passes to the table (\<open>oops\<close>, the empty string, a form feed before \<open>{}\<close>) is one on
  which \<open>json.loads\<close> raises \<open>JSONDecodeError\<close> as well. No general theorem depends
  on either.
\<close>

definition is_cont :: "char \<Rightarrow> bool" where
  "is_cont c = (0x80 \<le> (of_char c :: nat) \<and> (of_char c :: nat) \<le> 0xBF)"

definition low6 :: "char \<Rightarrow> nat" where
  "low6 c = of_char c - 0x80"

definition in_range :: "nat \<Rightarrow> nat \<Rightarrow> char \<Rightarrow> bool" where
  "in_range lo hi c = (lo \<le> of_char c \<and> (of_char c :: nat) \<le> hi)"

fun utf8_decode :: "bytes \<Rightarrow> pystr option" where
  "utf8_decode [] = Some []"
| "utf8_decode (c # cs) =
     (let b = of_char c :: nat in
      if b < 0x80 then map_option ((#) b) (utf8_decode cs)
      else if 0xC2 \<le> b \<and> b \<le> 0xDF then
        (case cs of
           c1 # r \<Rightarrow>
             if is_cont c1
             then map_option ((#) ((b - 0xC0) * 64 + low6 c1)) (utf8_decode r)
             else None
         | _ \<Rightarrow> None)
      else if 0xE0 \<le> b \<and> b \<le> 0xEF then
        (case cs of
           c1 # c2 # r \<Rightarrow>
             if in_range (if b = 0xE0 then 0xA0 else 0x80) (if b = 0xED then 0x9F else 0xBF) c1
                \<and> is_cont c2
             then map_option ((#) ((b - 0xE0) * 4096 + low6 c1 * 64 + low6 c2)) (utf8_decode r)
             else None
         | _ \<Rightarrow> None)
      else if 0xF0 \<le> b \<and> b \<le> 0xF4 then
        (case cs of
           c1 # c2 # c3 # r \<Rightarrow>
             if in_range (if b = 0xF0 then 0x90 else 0x80) (if b = 0xF4 then 0x8F else 0xBF) c1
                \<and> is_cont c2 \<and> is_cont c3
             then map_option
                    ((#) ((b - 0xF0) * 262144 + low6 c1 * 4096 + low6 c2 * 64 + low6 c3))
                    (utf8_decode r)
             else None
         | _ \<Rightarrow> None)
      else None)"

definition deep_brackets :: pystr where
  "deep_brackets = replicate 100000 91"

definition deep_bytes :: bytes where
  "deep_bytes = replicate 100000 (CHR ''['')"

definition json_loads_sample :: "pystr \<Rightarrow> py_exc + json" where
  \<open>json_loads_sample t =
     (if t = str ''{}'' then Inr (JDict [])
      else if t = str ''{"reasons":5}'' then Inr (JDict [(str ''reasons'', JInt 5)])
      else if t = deep_brackets then Inl RecursionError
      else Inl JSONDecodeError)\<close>

definition initial_world :: "(json, event_line) world" where
  "initial_world = \<lparr>calls = [], stdout = []\<rparr>"

section \<open>Records, events and dispatch traces\<close>

text \<open>
  The vocabulary of the claims. \<open>split_nl\<close> is \<open>bytes.split(b'\n')\<close>: the records of a
  byte string, the last of which no newline ends; \<open>join_nl\<close> puts a newline between
  records; \<open>after_last_nl\<close> is what follows the last newline.
\<close>

fun split_nl :: "bytes \<Rightarrow> bytes list" where
  "split_nl [] = [[]]"
| "split_nl (c # cs) =
     (if c = nl then [] # split_nl cs
      else (c # hd (split_nl cs)) # tl (split_nl cs))"

fun join_nl :: "bytes list \<Rightarrow> bytes" where
  "join_nl [] = []"
| "join_nl [r] = r"
| "join_nl (r # r' # rs) = r @ nl # join_nl (r' # rs)"

definition after_last_nl :: "bytes \<Rightarrow> bytes" where
  "after_last_nl bs = rev (takeWhile (\<lambda>c. c \<noteq> nl) (rev bs))"

text \<open>
  The event of a record or of a line, when decoding gives one. A record is dropped when
  decoding it raises one of the two exceptions that line 63 catches. The loop ends at a
  record when \<open>json.loads\<close> raises another exception on it, or when the handler raises,
  on its event, an exception that the inner \<open>except\<close> clause lets through; likewise
  for a line and line 29. \<open>processed_until\<close> is the part of a sequence that a loop gets
  through: up to the first element that ends it, that element included.
\<close>

definition decode_event ::
  "(bytes \<Rightarrow> pystr option) \<Rightarrow> (pystr \<Rightarrow> py_exc + 'ev) \<Rightarrow> bytes \<Rightarrow> 'ev option" where
  "decode_event decode loads r =
     (case decode r of
        None \<Rightarrow> None
      | Some t \<Rightarrow> (case loads t of Inl e \<Rightarrow> None | Inr ev \<Rightarrow> Some ev))"

definition line_event :: "(pystr \<Rightarrow> py_exc + 'ev) \<Rightarrow> pystr \<Rightarrow> 'ev option" where
  "line_event loads l =
     (if py_strip l = [] then None
      else (case loads (py_strip l) of Inl e \<Rightarrow> None | Inr ev \<Rightarrow> Some ev))"

definition pipe_dropped ::
  "(bytes \<Rightarrow> pystr option) \<Rightarrow> (pystr \<Rightarrow> py_exc + 'ev) \<Rightarrow> bytes \<Rightarrow> bool" where
  "pipe_dropped decode loads r =
     (case decode r of
        None \<Rightarrow> True
      | Some t \<Rightarrow>
         (case loads t of
            Inl e \<Rightarrow> e = JSONDecodeError \<or> e = UnicodeDecodeError
          | Inr ev \<Rightarrow> False))"

definition pipe_stops :: "('ev \<Rightarrow> py_exc + 'o list) \<Rightarrow> 'ev \<Rightarrow> bool" where
  "pipe_stops h ev =
     (case h ev of Inl e \<Rightarrow> e \<noteq> JSONDecodeError \<and> e \<noteq> UnicodeDecodeError | Inr out \<Rightarrow> False)"

definition stdin_stops :: "('ev \<Rightarrow> py_exc + 'o list) \<Rightarrow> 'ev \<Rightarrow> bool" where
  "stdin_stops h ev = (case h ev of Inl e \<Rightarrow> e \<noteq> JSONDecodeError | Inr out \<Rightarrow> False)"

definition pipe_ends ::
  "(bytes \<Rightarrow> pystr option) \<Rightarrow> (pystr \<Rightarrow> py_exc + 'ev) \<Rightarrow> ('ev \<Rightarrow> py_exc + 'o list) \<Rightarrow> bytes
     \<Rightarrow> bool" where
  "pipe_ends decode loads h r =
     (case decode r of
        None \<Rightarrow> False
      | Some t \<Rightarrow>
         (case loads t of
            Inl e \<Rightarrow> e \<noteq> JSONDecodeError \<and> e \<noteq> UnicodeDecodeError
          | Inr ev \<Rightarrow> pipe_stops h ev))"

definition stdin_ends ::
  "(pystr \<Rightarrow> py_exc + 'ev) \<Rightarrow> ('ev \<Rightarrow> py_exc + 'o list) \<Rightarrow> pystr \<Rightarrow> bool" where
  "stdin_ends loads h l =
     (if py_strip l = [] then False
      else (case loads (py_strip l) of
              Inl e \<Rightarrow> e \<noteq> JSONDecodeError
            | Inr ev \<Rightarrow> stdin_stops h ev))"

fun processed_until :: "('a \<Rightarrow> bool) \<Rightarrow> 'a list \<Rightarrow> 'a list" where
  "processed_until ends [] = []"
| "processed_until ends (x # xs) = x # (if ends x then [] else processed_until ends xs)"

text \<open>
  The body of the inner loop run on a list of records, and what the outer loop makes of
  its outcome.
\<close>

fun run_records ::
  "(bytes \<Rightarrow> pystr option) \<Rightarrow> (pystr \<Rightarrow> py_exc + 'ev) \<Rightarrow> ('ev \<Rightarrow> py_exc + 'o list) \<Rightarrow> bytes list
     \<Rightarrow> ('ev, 'o) world \<Rightarrow> py_exc option \<times> ('ev, 'o) world" where
  "run_records decode loads h [] w = (None, w)"
| "run_records decode loads h (r # rs) w =
     (case process_record decode loads h r w of
        (None, w') \<Rightarrow> run_records decode loads h rs w'
      | (Some e, w') \<Rightarrow> (Some e, w'))"

definition closing :: "py_exc option \<times> ('ev, 'o) world \<Rightarrow> status \<times> ('ev, 'o) world" where
  "closing r =
     (case r of
        (None, w) \<Rightarrow> (Reading, w)
      | (Some e, w) \<Rightarrow> (fst (on_exception e [] w), snd (snd (on_exception e [] w))))"

section \<open>Splitting and joining\<close>

lemma split_nl_not_Nil [simp]: "split_nl bs \<noteq> []"
  by (induction bs) auto

lemma split_nl_no_nl: "nl \<notin> set bs \<Longrightarrow> split_nl bs = [bs]"
  by (induction bs) auto

lemma split_nl_append_nl:
  "nl \<notin> set xs \<Longrightarrow> split_nl (xs @ nl # ys) = xs # split_nl ys"
  by (induction xs) auto

lemma split_once_decomp:
  "nl \<in> set bs \<Longrightarrow> bs = fst (split_once bs) @ nl # snd (split_once bs)"
proof -
  assume a: "nl \<in> set bs"
  then have ne: "dropWhile (\<lambda>c. c \<noteq> nl) bs \<noteq> []"
    by (simp add: dropWhile_eq_Nil_conv)
  then have "hd (dropWhile (\<lambda>c. c \<noteq> nl) bs) = nl"
    using hd_dropWhile[of "\<lambda>c. c \<noteq> nl" bs] by simp
  with ne have "dropWhile (\<lambda>c. c \<noteq> nl) bs = nl # tl (dropWhile (\<lambda>c. c \<noteq> nl) bs)"
    by (cases "dropWhile (\<lambda>c. c \<noteq> nl) bs") auto
  then have "takeWhile (\<lambda>c. c \<noteq> nl) bs @ nl # tl (dropWhile (\<lambda>c. c \<noteq> nl) bs) = bs"
    using takeWhile_dropWhile_id[of "\<lambda>c. c \<noteq> nl" bs] by simp
  then show ?thesis by (simp add: split_once_def)
qed

lemma fst_split_once_no_nl: "nl \<notin> set (fst (split_once bs))"
  by (auto simp: split_once_def dest: set_takeWhileD)

lemma split_nl_split_once:
  "nl \<in> set bs \<Longrightarrow> split_nl bs = fst (split_once bs) # split_nl (snd (split_once bs))"
  using split_once_decomp[of bs] split_nl_append_nl[OF fst_split_once_no_nl, of bs "snd (split_once bs)"]
  by simp

lemma split_nl_records_no_nl: "r \<in> set (split_nl bs) \<Longrightarrow> nl \<notin> set r"
proof (induction bs arbitrary: r)
  case Nil then show ?case by simp
next
  case (Cons c cs)
  show ?case
  proof (cases "c = nl")
    case True with Cons show ?thesis by auto
  next
    case False
    have "split_nl cs = hd (split_nl cs) # tl (split_nl cs)" by simp
    then have "hd (split_nl cs) \<in> set (split_nl cs)" "set (tl (split_nl cs)) \<subseteq> set (split_nl cs)"
      by (metis list.set_intros(1), metis list.set_intros(2) subsetI)
    with Cons False show ?thesis by auto
  qed
qed

lemma join_split_nl: "join_nl (split_nl bs) = bs"
proof (induction bs)
  case Nil then show ?case by simp
next
  case (Cons c cs)
  obtain r rs where e: "split_nl cs = r # rs" by (cases "split_nl cs") auto
  with Cons show ?case by (cases rs) auto
qed

lemma split_join_nl:
  "Rs \<noteq> [] \<Longrightarrow> (\<And>r. r \<in> set Rs \<Longrightarrow> nl \<notin> set r) \<Longrightarrow> split_nl (join_nl Rs) = Rs"
proof (induction Rs rule: join_nl.induct)
  case 1 then show ?case by simp
next
  case (2 r) then show ?case by (simp add: split_nl_no_nl)
next
  case (3 r r' rs)
  then show ?case by (simp add: split_nl_append_nl)
qed

lemma split_nl_append:
  "split_nl (xs @ ys) = butlast (split_nl xs) @ split_nl (last (split_nl xs) @ ys)"
proof (induction xs)
  case Nil then show ?case by simp
next
  case (Cons c cs)
  obtain r rs where e: "split_nl cs = r # rs" by (cases "split_nl cs") auto
  show ?case
  proof (cases rs)
    case Nil
    with e Cons show ?thesis by auto
  next
    case (Cons a list)
    with e Cons.IH show ?thesis
      by (cases "butlast (split_nl cs)") auto
  qed
qed

lemma after_last_nl_no_nl: "nl \<notin> set (after_last_nl bs)"
  by (auto simp: after_last_nl_def dest: set_takeWhileD)

lemma last_split_nl: "last (split_nl bs) = after_last_nl bs"
proof (induction bs rule: rev_induct)
  case Nil then show ?case by (simp add: after_last_nl_def)
next
  case (snoc c cs)
  have "last (split_nl (cs @ [c])) = last (split_nl (after_last_nl cs @ [c]))"
    by (simp add: split_nl_append[of cs "[c]"] snoc)
  also have "\<dots> = after_last_nl (cs @ [c])"
  proof (cases "c = nl")
    case True
    then show ?thesis
      using split_nl_append_nl[OF after_last_nl_no_nl, of cs "[]"]
      by (simp add: after_last_nl_def)
  next
    case False
    then have "nl \<notin> set (after_last_nl cs @ [c])"
      using after_last_nl_no_nl[of cs] by auto
    then show ?thesis using False
      by (simp add: split_nl_no_nl) (simp add: after_last_nl_def)
  qed
  finally show ?case .
qed

lemma last_split_nl_no_nl: "nl \<notin> set (last (split_nl bs))"
  by (simp add: last_split_nl after_last_nl_no_nl)

lemma butlast_split_nl_split_once:
  "nl \<in> set b \<Longrightarrow>
   butlast (split_nl b) = fst (split_once b) # butlast (split_nl (snd (split_once b)))"
  by (simp add: split_nl_split_once)

lemma last_split_nl_split_once:
  "nl \<in> set b \<Longrightarrow> last (split_nl b) = last (split_nl (snd (split_once b)))"
  by (simp add: split_nl_split_once)

lemma split_nl_terminated:
  "A = [] \<or> last A = nl \<Longrightarrow> last (split_nl A) = []"
proof (cases "A = []")
  case True then show ?thesis by simp
next
  case False
  assume "A = [] \<or> last A = nl"
  with False obtain X where "A = X @ [nl]"
    by (metis append_butlast_last_id)
  then show ?thesis
    by (simp add: last_split_nl after_last_nl_def)
qed

lemma split_nl_terminated_append:
  assumes "A = [] \<or> last A = nl"
  shows "split_nl (A @ B) = butlast (split_nl A) @ split_nl B"
  using split_nl_append[of A B] split_nl_terminated[OF assms] by simp

lemma split_nl_terminated_records:
  "(\<And>r. r \<in> set Rs \<Longrightarrow> nl \<notin> set r) \<Longrightarrow>
   split_nl (concat (map (\<lambda>r. r @ [nl]) Rs)) = Rs @ [[]]"
  by (induction Rs) (simp_all add: split_nl_append_nl)

lemma join_nl_butlast_last:
  "Rs \<noteq> [] \<Longrightarrow> concat (map (\<lambda>r. r @ [nl]) (butlast Rs)) @ last Rs = join_nl Rs"
  by (induction Rs rule: join_nl.induct) auto

lemma records_then_tail:
  "concat (map (\<lambda>r. r @ [nl]) (butlast (split_nl bs))) @ after_last_nl bs = bs"
  using join_nl_butlast_last[of "split_nl bs"] by (simp add: last_split_nl join_split_nl)

section \<open>One record, one line\<close>

lemma calls_call_handler: "calls (snd (call_handler h ev w)) = calls w @ [ev]"
  by (simp add: call_handler_def Let_def split: sum.splits)

lemma fst_call_handler:
  "fst (call_handler h ev w) = (case h ev of Inl e \<Rightarrow> Some e | Inr out \<Rightarrow> None)"
  by (simp add: call_handler_def Let_def split: sum.splits)

lemma calls_print [simp]: "calls (print l w) = calls w"
  by (simp add: print_def)

lemma process_record_dropped:
  "pipe_dropped decode loads r \<Longrightarrow> process_record decode loads h r w = (None, w)"
  by (auto simp: pipe_dropped_def process_record_def split: option.splits sum.splits)

lemma process_record_raises:
  "decode r = Some t \<Longrightarrow> loads t = Inl e \<Longrightarrow>
   process_record decode loads h r w =
     (if e = JSONDecodeError \<or> e = UnicodeDecodeError then None else Some e, w)"
  by (simp add: process_record_def)

lemma process_record_valid:
  "decode_event decode loads r = Some ev \<Longrightarrow>
   process_record decode loads h r w =
     ((case fst (call_handler h ev w) of
         None \<Rightarrow> None
       | Some e \<Rightarrow> if e = JSONDecodeError \<or> e = UnicodeDecodeError then None else Some e),
      snd (call_handler h ev w))"
  by (auto simp: decode_event_def process_record_def split: option.splits prod.splits sum.splits)

lemma fst_process_record:
  "(fst (process_record decode loads h r w) = None) = (\<not> pipe_ends decode loads h r)"
  by (auto simp: process_record_def pipe_ends_def pipe_stops_def call_handler_def
      split: option.splits sum.splits prod.splits)

lemma calls_process_record:
  "calls (snd (process_record decode loads h r w)) =
     calls w @ (case decode_event decode loads r of None \<Rightarrow> [] | Some ev \<Rightarrow> [ev])"
proof (cases "decode r")
  case None
  then show ?thesis
    by (simp add: process_record_def decode_event_def)
next
  case (Some t)
  show ?thesis
  proof (cases "loads t")
    case (Inl e)
    with Some show ?thesis
      by (simp add: process_record_raises decode_event_def)
  next
    case (Inr ev)
    with Some have "decode_event decode loads r = Some ev"
      by (simp add: decode_event_def)
    then show ?thesis
      by (simp add: process_record_valid calls_call_handler)
  qed
qed

lemma read_from_stdin_skip:
  "py_strip l = [] \<or> loads (py_strip l) = Inl JSONDecodeError \<Longrightarrow>
   read_from_stdin loads h (l # ls) w = read_from_stdin loads h ls w"
  by (auto simp: Let_def)

lemma read_from_stdin_raises:
  "py_strip l \<noteq> [] \<Longrightarrow> loads (py_strip l) = Inl e \<Longrightarrow> e \<noteq> JSONDecodeError \<Longrightarrow>
   read_from_stdin loads h (l # ls) w = (Some e, w)"
  by (simp add: Let_def)

lemma read_from_stdin_event:
  "line_event loads l = Some ev \<Longrightarrow>
   read_from_stdin loads h (l # ls) w =
     (case h ev of
        Inr out \<Rightarrow> read_from_stdin loads h ls (snd (call_handler h ev w))
      | Inl e \<Rightarrow>
          if e = JSONDecodeError then read_from_stdin loads h ls (snd (call_handler h ev w))
          else (Some e, snd (call_handler h ev w)))"
  by (auto simp: line_event_def Let_def call_handler_def split: if_splits sum.splits)

lemma read_from_stdin_cong:
  "(\<And>w'. read_from_stdin loads h xs w' = read_from_stdin loads h ys w') \<Longrightarrow>
   read_from_stdin loads h (p # xs) w = read_from_stdin loads h (p # ys) w"
  by (simp add: Let_def split: sum.splits prod.splits option.splits)

lemma py_strip_newline: "py_strip (t @ [10]) = py_strip t"
proof (cases "\<forall>c\<in>set t. py_isspace c")
  case True
  then have 1: "dropWhile py_isspace t = []" by simp
  have "py_isspace 10" by (simp add: py_isspace_def)
  with True have 2: "dropWhile py_isspace (t @ [10]) = []" by simp
  show ?thesis
    by (simp only: py_strip_def 1 2)
next
  case False
  then obtain x where "x \<in> set t" and "\<not> py_isspace x"
    by blast
  then have "dropWhile py_isspace (t @ [10]) = dropWhile py_isspace t @ [10]"
    by (rule dropWhile_append1)
  moreover have "py_isspace 10" by (simp add: py_isspace_def)
  ultimately show ?thesis
    by (simp add: py_strip_def)
qed

lemma py_strip_no_space:
  "\<forall>c\<in>set t. \<not> py_isspace c \<Longrightarrow> py_strip t = t"
proof -
  assume a: "\<forall>c\<in>set t. \<not> py_isspace c"
  have d: "dropWhile py_isspace xs = xs" if "\<forall>c\<in>set xs. \<not> py_isspace c" for xs
    using that by (cases xs) auto
  have "dropWhile py_isspace (rev t) = rev t"
    using a by (intro d) simp
  then show ?thesis
    using d[OF a] by (simp add: py_strip_def)
qed

lemma processed_until_all: "\<not> list_ex ends xs \<Longrightarrow> processed_until ends xs = xs"
  by (induction xs) auto

section \<open>The handler's exceptions\<close>

text \<open>What the statements of \<open>handle_event\<close> before its \<open>print\<close> can raise.\<close>

lemma py_in_raises: "py_in s v = Inl e \<Longrightarrow> e = TypeError"
  by (cases v) auto

lemma py_slice_raises: "py_slice_11_23 v = Inl e \<Longrightarrow> e = TypeError \<or> e = KeyError"
  by (cases v) auto

lemma py_rsplit_raises: "py_rsplit_dot_last v = Inl e \<Longrightarrow> e = AttributeError"
  by (cases v) auto

lemma file_ext_raises: "file_ext v = Inl e \<Longrightarrow> e = TypeError \<or> e = AttributeError"
  by (auto simp: file_ext_def split: sum.splits if_splits dest: py_in_raises py_rsplit_raises)

lemma event_fields_raises: "event_fields ev = Inl e \<Longrightarrow> e = AttributeError"
  by (cases ev) auto

lemma handle_event_raises:
  "handle_event ev = Inl e \<Longrightarrow> e = AttributeError \<or> e = TypeError \<or> e = KeyError"
  by (auto simp: handle_event_def split: sum.splits if_splits
      dest: py_in_raises py_slice_raises file_ext_raises event_fields_raises)

section \<open>The line reader as a fold over lines\<close>

lemma calls_read_from_stdin:
  "calls (snd (read_from_stdin loads h ls w)) =
     calls w @ List.map_filter (line_event loads) (processed_until (stdin_ends loads h) ls)"
proof (induction ls arbitrary: w)
  case Nil
  then show ?case by simp
next
  case (Cons l ls)
  show ?case
  proof (cases "py_strip l = []")
    case True
    with Cons.IH[of w] show ?thesis
      by (simp add: line_event_def stdin_ends_def)
  next
    case False
    show ?thesis
    proof (cases "loads (py_strip l)")
      case (Inl e)
      with False Cons.IH[of w] show ?thesis
        by (simp add: line_event_def stdin_ends_def)
    next
      case (Inr ev)
      then have le: "line_event loads l = Some ev"
        using False by (simp add: line_event_def)
      show ?thesis
      proof (cases "h ev")
        case (Inl e)
        with Inr False le Cons.IH[of "snd (call_handler h ev w)"] show ?thesis
          by (simp add: read_from_stdin_event stdin_ends_def stdin_stops_def
              calls_call_handler del: read_from_stdin.simps)
      next
        case Inr2: (Inr out)
        with Inr False le Cons.IH[of "snd (call_handler h ev w)"] show ?thesis
          by (simp add: read_from_stdin_event stdin_ends_def stdin_stops_def
              calls_call_handler del: read_from_stdin.simps)
      qed
    qed
  qed
qed

lemma fst_read_from_stdin:
  "(fst (read_from_stdin loads h ls w) = None) = (\<not> list_ex (stdin_ends loads h) ls)"
proof (induction ls arbitrary: w)
  case Nil
  then show ?case by simp
next
  case (Cons l ls)
  show ?case
  proof (cases "py_strip l = []")
    case True
    with Cons.IH[of w] show ?thesis
      by (simp add: stdin_ends_def)
  next
    case False
    show ?thesis
    proof (cases "loads (py_strip l)")
      case (Inl e)
      with False Cons.IH[of w] show ?thesis
        by (simp add: stdin_ends_def)
    next
      case (Inr ev)
      then have le: "line_event loads l = Some ev"
        using False by (simp add: line_event_def)
      show ?thesis
      proof (cases "h ev")
        case (Inl e)
        with Inr False le Cons.IH[of "snd (call_handler h ev w)"] show ?thesis
          by (simp add: read_from_stdin_event stdin_ends_def stdin_stops_def
              del: read_from_stdin.simps)
      next
        case Inr2: (Inr out)
        with Inr False le Cons.IH[of "snd (call_handler h ev w)"] show ?thesis
          by (simp add: read_from_stdin_event stdin_ends_def stdin_stops_def
              del: read_from_stdin.simps)
      qed
    qed
  qed
qed

lemma read_from_stdin_insert_skipped:
  "py_strip l = [] \<or> loads (py_strip l) = Inl JSONDecodeError \<Longrightarrow>
   read_from_stdin loads h (pre @ l # post) w = read_from_stdin loads h (pre @ post) w"
proof (induction pre arbitrary: w)
  case Nil
  then show ?case by (simp add: read_from_stdin_skip del: read_from_stdin.simps)
next
  case (Cons p pre)
  have "read_from_stdin loads h (p # (pre @ l # post)) w =
      read_from_stdin loads h (p # (pre @ post)) w"
    by (rule read_from_stdin_cong) (rule Cons.IH[OF Cons.prems])
  then show ?case by simp
qed

section \<open>The pipe reader as a fold over records\<close>

lemma run_records_append:
  "run_records decode loads h (xs @ ys) w =
     (case run_records decode loads h xs w of
        (None, w') \<Rightarrow> run_records decode loads h ys w'
      | (Some e, w') \<Rightarrow> (Some e, w'))"
  by (induction xs arbitrary: w) (auto split: prod.splits option.splits)

lemma run_records_insert_dropped:
  "pipe_dropped decode loads r \<Longrightarrow>
   run_records decode loads h (xs @ r # ys) w = run_records decode loads h (xs @ ys) w"
  by (simp add: run_records_append process_record_dropped split: prod.splits option.splits)

lemma calls_run_records:
  "calls (snd (run_records decode loads h rs w)) =
     calls w @ List.map_filter (decode_event decode loads)
       (processed_until (pipe_ends decode loads h) rs)"
proof (induction rs arbitrary: w)
  case Nil
  then show ?case by simp
next
  case (Cons r rs)
  obtain x w' where p: "process_record decode loads h r w = (x, w')"
    by (cases "process_record decode loads h r w")
  have c: "calls w' = calls w @ (case decode_event decode loads r of None \<Rightarrow> [] | Some ev \<Rightarrow> [ev])"
    using calls_process_record[of decode loads h r w] p by simp
  have s: "(x = None) = (\<not> pipe_ends decode loads h r)"
    using fst_process_record[of decode loads h r w] p by simp
  show ?case
  proof (cases x)
    case None
    with s p c Cons.IH[of w'] show ?thesis
      by (simp split: option.splits)
  next
    case (Some e)
    with s p c show ?thesis
      by (simp split: option.splits)
  qed
qed

lemma fst_run_records:
  "(fst (run_records decode loads h rs w) = None) =
     (\<not> list_ex (pipe_ends decode loads h) rs)"
proof (induction rs arbitrary: w)
  case Nil
  then show ?case by simp
next
  case (Cons r rs)
  obtain x w' where p: "process_record decode loads h r w = (x, w')"
    by (cases "process_record decode loads h r w")
  have s: "(x = None) = (\<not> pipe_ends decode loads h r)"
    using fst_process_record[of decode loads h r w] p by simp
  show ?case
  proof (cases x)
    case None
    with s p Cons.IH[of w'] show ?thesis by simp
  next
    case (Some e)
    with s p show ?thesis by simp
  qed
qed

lemma extract_pass_no_nl:
  "nl \<notin> set b \<Longrightarrow> extract_pass decode loads h b w = (None, b, w)"
  by (simp add: extract_pass.simps)

lemma extract_pass_skip:
  assumes "nl \<notin> set r" and "pipe_dropped decode loads r"
  shows "extract_pass decode loads h (r @ nl # B) w = extract_pass decode loads h B w"
proof -
  have "\<forall>c\<in>set r. c \<noteq> nl"
    using assms(1) by auto
  then have "split_once (r @ nl # B) = (r, B)"
    by (simp add: split_once_def)
  then show ?thesis
    using assms(2)
    by (subst extract_pass.simps) (simp add: process_record_dropped)
qed

lemma extract_pass_single:
  assumes "nl \<notin> set r"
  shows "extract_pass decode loads h (r @ [nl]) w =
     (fst (process_record decode loads h r w), [], snd (process_record decode loads h r w))"
proof -
  have "\<forall>c\<in>set r. c \<noteq> nl"
    using assms by auto
  then have s: "split_once (r @ [nl]) = (r, [])"
    by (simp add: split_once_def)
  obtain x w' where p: "process_record decode loads h r w = (x, w')"
    by (cases "process_record decode loads h r w")
  have e: "extract_pass decode loads h [] w' = (None, [], w')"
    by (simp add: extract_pass.simps)
  show ?thesis
    by (subst extract_pass.simps) (simp add: s p e split: option.splits)
qed

lemma extract_pass_outcome:
  "(fst (extract_pass decode loads h b w), snd (snd (extract_pass decode loads h b w))) =
     run_records decode loads h (butlast (split_nl b)) w"
proof (induction decode loads h b w rule: extract_pass.induct)
  case (1 decode loads h buffer w)
  show ?case
  proof (cases "nl \<in> set buffer")
    case False
    then show ?thesis
      by (simp add: extract_pass.simps[of decode loads h buffer w] split_nl_no_nl)
  next
    case True
    obtain x w' where p: "process_record decode loads h (fst (split_once buffer)) w = (x, w')"
      by (cases "process_record decode loads h (fst (split_once buffer)) w")
    show ?thesis
    proof (cases x)
      case None
      with 1 True p show ?thesis
        by (simp add: extract_pass.simps[of decode loads h buffer w] butlast_split_nl_split_once)
    next
      case (Some e)
      with True p show ?thesis
        by (simp add: extract_pass.simps[of decode loads h buffer w] butlast_split_nl_split_once)
    qed
  qed
qed

lemma extract_pass_buffer:
  "fst (extract_pass decode loads h b w) = None \<Longrightarrow>
   fst (snd (extract_pass decode loads h b w)) = last (split_nl b)"
proof (induction decode loads h b w rule: extract_pass.induct)
  case (1 decode loads h buffer w)
  show ?case
  proof (cases "nl \<in> set buffer")
    case False
    then show ?thesis
      by (simp add: extract_pass.simps[of decode loads h buffer w] split_nl_no_nl)
  next
    case True
    obtain x w' where p: "process_record decode loads h (fst (split_once buffer)) w = (x, w')"
      by (cases "process_record decode loads h (fst (split_once buffer)) w")
    show ?thesis
    proof (cases x)
      case None
      with 1 True p show ?thesis
        by (simp add: extract_pass.simps[of decode loads h buffer w] last_split_nl_split_once)
    next
      case (Some e)
      with "1.prems" True p show ?thesis
        by (simp add: extract_pass.simps[of decode loads h buffer w])
    qed
  qed
qed

lemma on_exception_outcome:
  "(fst (on_exception e b w), snd (snd (on_exception e b w))) = closing (Some e, w)"
  by (simp add: closing_def on_exception_def)

lemma fst_on_exception_not_Reading: "fst (on_exception e b w) \<noteq> Reading"
  by (simp add: on_exception_def)

lemma on_exception_buffer [simp]: "fst (snd (on_exception e b w)) = b"
  by (simp add: on_exception_def)

lemma on_exception_calls [simp]: "calls (snd (snd (on_exception e b w))) = calls w"
  by (simp add: on_exception_def)

lemma calls_closing: "calls (snd (closing r)) = calls (snd r)"
  by (cases r) (auto simp: closing_def on_exception_def split: option.splits)

lemma fst_closing: "(fst (closing r) = Reading) = (fst r = None)"
  by (cases r) (auto simp: closing_def on_exception_def split: option.splits)

lemma snd_closing_Reading: "fst r = None \<Longrightarrow> snd (closing r) = snd r"
  by (cases r) (auto simp: closing_def)

lemma pipe_loop_data_outcome:
  "nl \<notin> set b \<Longrightarrow>
   (fst (pipe_loop decode loads h (map Data cs) b w),
    snd (snd (pipe_loop decode loads h (map Data cs) b w))) =
     closing (run_records decode loads h (butlast (split_nl (b @ concat cs))) w)"
proof (induction cs arbitrary: b w)
  case Nil
  then show ?case by (simp add: split_nl_no_nl closing_def)
next
  case (Cons c cs)
  let ?E = "extract_pass decode loads h (b @ c) w"
  obtain x b' w' where e: "?E = (x, b', w')" by (cases ?E) auto
  have r: "run_records decode loads h (butlast (split_nl (b @ c))) w = (x, w')"
    using extract_pass_outcome[of decode loads h "b @ c" w] e by simp
  have sp: "butlast (split_nl (b @ c @ concat cs)) =
      butlast (split_nl (b @ c)) @ butlast (split_nl (last (split_nl (b @ c)) @ concat cs))"
    using split_nl_append[of "b @ c" "concat cs"] by (simp add: butlast_append)
  show ?case
  proof (cases x)
    case None
    then have b': "b' = last (split_nl (b @ c))"
      using extract_pass_buffer[of decode loads h "b @ c" w] e by simp
    then have "nl \<notin> set b'" by (simp add: last_split_nl_no_nl)
    from Cons.IH[OF this, of w'] None e r b' show ?thesis
      by (simp add: sp run_records_append)
  next
    case (Some ex)
    with e r show ?thesis
      using on_exception_outcome[of ex b' w']
      by (simp add: sp run_records_append)
  qed
qed

lemma pipe_loop_data_buffer:
  "nl \<notin> set b \<Longrightarrow> fst (pipe_loop decode loads h (map Data cs) b w) = Reading \<Longrightarrow>
   fst (snd (pipe_loop decode loads h (map Data cs) b w)) = after_last_nl (b @ concat cs)"
proof (induction cs arbitrary: b w)
  case Nil
  then show ?case using split_nl_no_nl[of b] last_split_nl[of b] by simp
next
  case (Cons c cs)
  let ?E = "extract_pass decode loads h (b @ c) w"
  obtain x b' w' where e: "?E = (x, b', w')" by (cases ?E) auto
  have sp: "last (split_nl (b @ c @ concat cs)) =
      last (split_nl (last (split_nl (b @ c)) @ concat cs))"
    using split_nl_append[of "b @ c" "concat cs"] by simp
  show ?case
  proof (cases x)
    case None
    then have b': "b' = last (split_nl (b @ c))"
      using extract_pass_buffer[of decode loads h "b @ c" w] e by simp
    then have n: "nl \<notin> set b'" by (simp add: last_split_nl_no_nl)
    have "fst (pipe_loop decode loads h (map Data cs) b' w') = Reading"
      using Cons.prems(2) e None by simp
    from Cons.IH[OF n this] None e b' show ?thesis
      using sp by (simp add: last_split_nl)
  next
    case (Some ex)
    with e Cons.prems(2) show ?thesis
      by (simp add: fst_on_exception_not_Reading)
  qed
qed

lemma pipe_loop_append:
  "pipe_loop decode loads h (rs @ rs') b w =
     (case pipe_loop decode loads h rs b w of
        (Reading, b', w') \<Rightarrow> pipe_loop decode loads h rs' b' w'
      | (Disconnected, b', w') \<Rightarrow> (Disconnected, b', w')
      | (Propagated e, b', w') \<Rightarrow> (Propagated e, b', w'))"
proof (induction decode loads h rs b w rule: pipe_loop.induct)
  case (1 decode loads h buffer w)
  then show ?case by simp
next
  case (2 decode loads h e rs buffer w)
  then show ?case by (simp add: on_exception_def)
next
  case (3 decode loads h data rs buffer w)
  obtain x b' w' where e: "extract_pass decode loads h (buffer @ data) w = (x, b', w')"
    by (cases "extract_pass decode loads h (buffer @ data) w") auto
  show ?case
  proof (cases x)
    case None
    with 3 e show ?thesis by simp
  next
    case (Some ex)
    with e show ?thesis by (simp add: on_exception_def)
  qed
qed

lemma pipe_loop_Reading_data:
  "fst (pipe_loop decode loads h rs b w) = Reading \<Longrightarrow> \<exists>cs. rs = map Data cs"
proof (induction decode loads h rs b w rule: pipe_loop.induct)
  case (1 decode loads h buffer w)
  then show ?case by simp
next
  case (2 decode loads h e rs buffer w)
  then show ?case by (simp add: on_exception_def split: if_splits)
next
  case (3 decode loads h data rs buffer w)
  obtain x b' w' where e: "extract_pass decode loads h (buffer @ data) w = (x, b', w')"
    by (cases "extract_pass decode loads h (buffer @ data) w") auto
  show ?case
  proof (cases x)
    case None
    have "fst (pipe_loop decode loads h rs b' w') = Reading"
      using "3.prems" e None by simp
    then have "\<exists>cs. rs = map Data cs"
      using "3.IH"[of x "(b', w')" b' w'] e None by simp
    then obtain cs where "rs = map Data cs" by blast
    then have "Data data # rs = map Data (data # cs)" by simp
    then show ?thesis by (rule exI)
  next
    case (Some ex)
    with e "3.prems" show ?thesis by (simp add: on_exception_def split: if_splits)
  qed
qed

lemma pipe_loop_then_raises:
  "fst (pipe_loop decode loads h rs b w) = Reading \<Longrightarrow>
   pipe_loop decode loads h (rs @ [Raises e]) b w =
     on_exception e (fst (snd (pipe_loop decode loads h rs b w)))
       (snd (snd (pipe_loop decode loads h rs b w)))"
  by (cases "pipe_loop decode loads h rs b w") (simp add: pipe_loop_append)

lemma pipe_loop_data_calls:
  "nl \<notin> set b \<Longrightarrow>
   calls (snd (snd (pipe_loop decode loads h (map Data cs) b w))) =
     calls w @ List.map_filter (decode_event decode loads)
       (processed_until (pipe_ends decode loads h) (butlast (split_nl (b @ concat cs))))"
proof -
  assume b: "nl \<notin> set b"
  have "snd (snd (pipe_loop decode loads h (map Data cs) b w)) =
      snd (closing (run_records decode loads h (butlast (split_nl (b @ concat cs))) w))"
    using pipe_loop_data_outcome[OF b, of decode loads h cs w]
    by (metis snd_conv)
  then show ?thesis
    by (simp add: calls_closing calls_run_records)
qed

lemma pipe_loop_data_Reading:
  "nl \<notin> set b \<Longrightarrow>
   (fst (pipe_loop decode loads h (map Data cs) b w) = Reading) =
     (\<not> list_ex (pipe_ends decode loads h) (butlast (split_nl (b @ concat cs))))"
proof -
  assume b: "nl \<notin> set b"
  have "fst (pipe_loop decode loads h (map Data cs) b w) =
      fst (closing (run_records decode loads h (butlast (split_nl (b @ concat cs))) w))"
    using pipe_loop_data_outcome[OF b, of decode loads h cs w]
    by (metis fst_conv)
  then show ?thesis
    by (simp add: fst_closing fst_run_records)
qed

section \<open>Records and lines that end a loop\<close>

lemma pipe_ends_event:
  "decode_event decode loads r = Some ev \<Longrightarrow> pipe_ends decode loads h r = pipe_stops h ev"
  by (auto simp: decode_event_def pipe_ends_def split: option.splits sum.splits)

lemma pipe_dropped_not_ends:
  "pipe_dropped decode loads r \<Longrightarrow>
   \<not> pipe_ends decode loads h r \<and> decode_event decode loads r = None"
  by (auto simp: decode_event_def pipe_ends_def pipe_dropped_def split: option.splits sum.splits)

lemma stdin_ends_event:
  "line_event loads l = Some ev \<Longrightarrow> stdin_ends loads h l = stdin_stops h ev"
  by (auto simp: line_event_def stdin_ends_def split: if_splits sum.splits)

lemma stdin_dropped_not_ends:
  "loads (py_strip l) = Inl JSONDecodeError \<Longrightarrow>
   \<not> stdin_ends loads h l \<and> line_event loads l = None"
  by (simp add: line_event_def stdin_ends_def)

lemma extract_pass_ends:
  assumes "nl \<notin> set r" and "process_record decode loads h r w = (Some e, w')"
  shows "extract_pass decode loads h (r @ nl # B) w = (Some e, B, w')"
proof -
  have "\<forall>c\<in>set r. c \<noteq> nl"
    using assms(1) by auto
  then have "split_once (r @ nl # B) = (r, B)"
    by (simp add: split_once_def)
  then show ?thesis
    using assms(2) by (subst extract_pass.simps) simp
qed

lemma line_matches_record:
  assumes "decode r = Some t" and "loads (py_strip t) = loads t"
    and "loads t \<noteq> Inl UnicodeDecodeError" and "loads [] = Inl JSONDecodeError"
    and "\<forall>ev. h ev \<noteq> Inl UnicodeDecodeError"
  shows "line_event loads (t @ [10]) = decode_event decode loads r
       \<and> stdin_ends loads h (t @ [10]) = pipe_ends decode loads h r"
proof (cases "py_strip t = []")
  case True
  with assms(2,4) have "loads t = Inl JSONDecodeError" by simp
  with True assms(1) show ?thesis
    by (simp add: line_event_def stdin_ends_def decode_event_def pipe_ends_def py_strip_newline)
next
  case False
  show ?thesis
  proof (cases "loads t")
    case (Inl e)
    with False assms(1,2,3) show ?thesis
      by (auto simp: line_event_def stdin_ends_def decode_event_def pipe_ends_def
          py_strip_newline)
  next
    case (Inr ev)
    have "stdin_stops h ev = pipe_stops h ev"
      using assms(5) by (auto simp: stdin_stops_def pipe_stops_def split: sum.splits)
    with Inr False assms(1,2) show ?thesis
      by (simp add: line_event_def stdin_ends_def decode_event_def pipe_ends_def
          py_strip_newline)
  qed
qed

lemma transports_agree:
  assumes "loads [] = Inl JSONDecodeError" and "\<forall>ev. h ev \<noteq> Inl UnicodeDecodeError"
  shows "map decode Rs = map Some Ts \<Longrightarrow>
   (\<And>t. t \<in> set Ts \<Longrightarrow> loads (py_strip t) = loads t \<and> loads t \<noteq> Inl UnicodeDecodeError) \<Longrightarrow>
   List.map_filter (line_event loads)
     (processed_until (stdin_ends loads h) (map (\<lambda>t. t @ [10]) Ts)) =
   List.map_filter (decode_event decode loads)
     (processed_until (pipe_ends decode loads h) Rs)"
proof (induction Rs arbitrary: Ts)
  case Nil
  then show ?case by simp
next
  case (Cons r Rs)
  then obtain t Ts' where ts: "Ts = t # Ts'" by (cases Ts) auto
  with Cons.prems(1) have d: "decode r = Some t" and m: "map decode Rs = map Some Ts'"
    by simp_all
  have t: "loads (py_strip t) = loads t" "loads t \<noteq> Inl UnicodeDecodeError"
    using Cons.prems(2)[of t] ts by simp_all
  have l: "line_event loads (t @ [10]) = decode_event decode loads r"
    "stdin_ends loads h (t @ [10]) = pipe_ends decode loads h r"
    using line_matches_record[where decode = decode and r = r and t = t and loads = loads
        and h = h] d t assms by simp_all
  have ih: "List.map_filter (line_event loads)
     (processed_until (stdin_ends loads h) (map (\<lambda>t. t @ [10]) Ts')) =
   List.map_filter (decode_event decode loads)
     (processed_until (pipe_ends decode loads h) Rs)"
    using Cons.IH[OF m] Cons.prems(2) ts by simp
  show ?case
    using l ih by (simp add: ts split: option.splits)
qed

section \<open>Runs on concrete input\<close>

lemma length_deep_brackets: "length deep_brackets = 100000"
  by (simp add: deep_brackets_def)

lemma short_not_deep_brackets: "length t \<noteq> 100000 \<Longrightarrow> (t = deep_brackets) = False"
  using length_deep_brackets by auto

lemma py_strip_deep_brackets: "py_strip (deep_brackets @ [10]) = deep_brackets"
proof -
  have "\<not> py_isspace 91" by (simp add: py_isspace_def)
  then have "\<forall>c\<in>set deep_brackets. \<not> py_isspace c"
    by (simp add: deep_brackets_def)
  then show ?thesis
    by (simp add: py_strip_newline py_strip_no_space)
qed

lemma loads_deep_brackets: "json_loads_sample deep_brackets = Inl RecursionError"
proof -
  have \<open>(str ''{}'' = deep_brackets) = False\<close>
    by (rule short_not_deep_brackets) (simp add: str_def)
  moreover have \<open>(str ''{"reasons":5}'' = deep_brackets) = False\<close>
    by (rule short_not_deep_brackets) (simp add: str_def)
  ultimately have \<open>deep_brackets \<noteq> str ''{}''\<close> \<open>deep_brackets \<noteq> str ''{"reasons":5}''\<close>
    by auto
  then show ?thesis
    by (simp add: json_loads_sample_def)
qed

lemma deep_brackets_not_Nil: "deep_brackets \<noteq> []"
  using length_deep_brackets by auto

lemmas run_simps =
  read_from_named_pipe_def extract_pass.simps process_record_def call_handler_def
  on_exception_def print_def split_once_def nl_def initial_world_def Let_def
  json_loads_sample_def short_not_deep_brackets str_def handle_event_def py_get_def
  py_or_def file_ext_def

lemma sample_run_reading:
  \<open>read_from_named_pipe utf8_decode json_loads_sample handle_event None
      [Data ''{}\<newline>oo'', Data ''ps\<newline>{}\<newline>ab''] initial_world =
     (Reading, ''ab'', \<lparr>calls = [JDict [], JDict []], stdout = [Connecting, Connected]\<rparr>)\<close>
  by (simp add: run_simps)

lemma sample_stdin_two:
  \<open>read_from_stdin json_loads_sample handle_event [str ''{}\<newline>'', str ''{}\<newline>''] initial_world =
     (None, \<lparr>calls = [JDict [], JDict []], stdout = []\<rparr>)\<close>
  by (simp add: run_simps py_strip_def py_isspace_def)

lemma sample_pipe_two:
  \<open>read_from_named_pipe utf8_decode json_loads_sample handle_event None
      [Data ''{}\<newline>{'', Data ''}\<newline>''] initial_world =
     (Reading, [], \<lparr>calls = [JDict [], JDict []], stdout = [Connecting, Connected]\<rparr>)\<close>
  by (simp add: run_simps)

lemma sample_stdin_deep:
  \<open>read_from_stdin json_loads_sample handle_event
      [str ''{}\<newline>'', deep_brackets @ [10], str ''{}\<newline>''] initial_world =
     (Some RecursionError, \<lparr>calls = [JDict []], stdout = []\<rparr>)\<close>
proof -
  have 1: \<open>line_event json_loads_sample (str ''{}\<newline>'') = Some (JDict [])\<close>
    by (simp add: line_event_def json_loads_sample_def str_def py_strip_def py_isspace_def)
  have 2: \<open>handle_event (JDict []) = Inr []\<close>
    by (simp add: handle_event_def py_get_def py_or_def)
  have 3: \<open>read_from_stdin json_loads_sample handle_event
      ((deep_brackets @ [10]) # [str ''{}\<newline>'']) w = (Some RecursionError, w)\<close> for w
    by (rule read_from_stdin_raises)
      (simp_all add: py_strip_deep_brackets deep_brackets_not_Nil loads_deep_brackets)
  show ?thesis
    by (simp add: read_from_stdin_event[OF 1] 2 3 call_handler_def initial_world_def
        del: read_from_stdin.simps)
qed

lemma utf8_decode_ascii:
  "of_char c < (128::nat) \<Longrightarrow> utf8_decode (replicate n c) = Some (replicate n (of_char c))"
  by (induction n) (simp_all add: Let_def)

lemma utf8_decode_deep_bytes: "utf8_decode deep_bytes = Some deep_brackets"
  by (simp add: deep_bytes_def deep_brackets_def utf8_decode_ascii)

lemma sample_pipe_deep:
  \<open>read_from_named_pipe utf8_decode json_loads_sample handle_event None
      [Data (deep_bytes @ ''\<newline>{}\<newline>'')] initial_world =
     (Disconnected, ''{}\<newline>'',
      \<lparr>calls = [], stdout = [Connecting, Connected, Pipe_disconnected RecursionError]\<rparr>)\<close>
proof -
  have n: "nl \<notin> set deep_bytes"
    by (simp add: deep_bytes_def nl_def)
  have p: "process_record utf8_decode json_loads_sample handle_event deep_bytes w =
      (Some RecursionError, w)" for w :: "(json, event_line) world"
    using process_record_raises[where decode = utf8_decode and r = deep_bytes
        and t = deep_brackets and loads = json_loads_sample and e = RecursionError
        and h = handle_event and w = w, OF utf8_decode_deep_bytes loads_deep_brackets]
    by simp
  have \<open>extract_pass utf8_decode json_loads_sample handle_event (deep_bytes @ nl # ''{}\<newline>'') w =
      (Some RecursionError, ''{}\<newline>'', w)\<close> for w :: "(json, event_line) world"
    using n p by (rule extract_pass_ends)
  then have \<open>extract_pass utf8_decode json_loads_sample handle_event
      (deep_bytes @ ''\<newline>{}\<newline>'') w = (Some RecursionError, ''{}\<newline>'', w)\<close>
    for w :: "(json, event_line) world"
    by (simp add: nl_def)
  then show ?thesis
    by (simp add: read_from_named_pipe_def on_exception_def print_def initial_world_def)
qed

lemma sample_pipe_handler_raises:
  \<open>read_from_named_pipe utf8_decode json_loads_sample handle_event None
      [Data ''{"reasons":5}\<newline>{}\<newline>'', Raises PipeError] initial_world =
     (Disconnected, ''{}\<newline>'',
      \<lparr>calls = [JDict [(str ''reasons'', JInt 5)]],
       stdout = [Connecting, Connected, Pipe_disconnected TypeError]\<rparr>)\<close>
  by (simp add: run_simps)

section \<open>The claims\<close>

text \<open>
  \<^bold>\<open>C1\<close> (amended). Let the chunks read from the pipe concatenate to
  \<open>R1 + "\n" + ... + Rn\<close>, no \<open>Ri\<close> containing a newline. However the bytes are cut into
  chunks, the handler is called, in order, with the events of the records that decode as
  UTF-8 and as JSON among those of \<open>R1 .. R(n-1)\<close> that the loop gets through: the
  records up to the first one that ends the loop, because \<open>json.loads\<close> raises on it an
  exception other than \<open>JSONDecodeError\<close> and \<open>UnicodeDecodeError\<close>, or because the
  handler raises such an exception on its event. When no record ends the loop, all the
  valid ones among \<open>R1 .. R(n-1)\<close> are dispatched, the loop is reading, and \<open>Rn\<close>, which
  no newline ends, is the buffer: it is never dispatched.
\<close>

theorem framing_dispatch:
  assumes "Rs \<noteq> []" and "\<forall>r\<in>set Rs. nl \<notin> set r" and "concat chunks = join_nl Rs"
  shows "calls (snd (snd (read_from_named_pipe decode loads h None (map Data chunks) w))) =
           calls w @ List.map_filter (decode_event decode loads)
             (processed_until (pipe_ends decode loads h) (butlast Rs))
         \<and> (\<not> list_ex (pipe_ends decode loads h) (butlast Rs) \<longrightarrow>
              calls (snd (snd (read_from_named_pipe decode loads h None (map Data chunks) w))) =
                calls w @ List.map_filter (decode_event decode loads) (butlast Rs)
              \<and> fst (read_from_named_pipe decode loads h None (map Data chunks) w) = Reading
              \<and> fst (snd (read_from_named_pipe decode loads h None (map Data chunks) w)) = last Rs)"
proof -
  let ?w = "print Connected (print Connecting w)"
  let ?P = "pipe_loop decode loads h (map Data chunks) [] ?w"
  have sp: "split_nl (concat chunks) = Rs"
    using assms by (simp add: split_join_nl)
  have c: "calls (snd (snd ?P)) = calls w @ List.map_filter (decode_event decode loads)
      (processed_until (pipe_ends decode loads h) (butlast Rs))"
    using pipe_loop_data_calls[of "[]" decode loads h chunks ?w] by (simp add: sp)
  have "fst ?P = Reading \<and> fst (snd ?P) = last Rs"
    if n: "\<not> list_ex (pipe_ends decode loads h) (butlast Rs)"
  proof -
    have r: "fst ?P = Reading"
      using pipe_loop_data_Reading[of "[]" decode loads h chunks ?w] n by (simp add: sp)
    then have b: "fst (snd ?P) = last Rs"
      using pipe_loop_data_buffer[of "[]" decode loads h chunks ?w] sp
      by (simp add: last_split_nl[symmetric])
    with r show ?thesis by simp
  qed
  with c show ?thesis
    by (simp add: read_from_named_pipe_def processed_until_all)
qed

theorem framing_dispatch_witness:
  \<open>calls (snd (snd (read_from_named_pipe utf8_decode json_loads_sample handle_event None
      [Data ''{}\<newline>oo'', Data ''ps\<newline>{}\<newline>{'', Data ''}''] initial_world))) = [JDict [], JDict []]
   \<and> fst (read_from_named_pipe utf8_decode json_loads_sample handle_event None
      [Data ''{}\<newline>oo'', Data ''ps\<newline>{}\<newline>{'', Data ''}''] initial_world) = Reading
   \<and> fst (snd (read_from_named_pipe utf8_decode json_loads_sample handle_event None
      [Data ''{}\<newline>oo'', Data ''ps\<newline>{}\<newline>{'', Data ''}''] initial_world)) = ''{}''\<close>
proof -
  have h: \<open>\<forall>r\<in>set [''{}'', ''oops'', ''{}'', ''{}'']. nl \<notin> set r\<close>
    by (simp add: nl_def)
  have e: \<open>List.map_filter (decode_event utf8_decode json_loads_sample) [''{}'', ''oops'', ''{}''] =
      [JDict [], JDict []]\<close>
    by (simp add: decode_event_def json_loads_sample_def short_not_deep_brackets str_def Let_def)
  have s: \<open>\<not> list_ex (pipe_ends utf8_decode json_loads_sample handle_event)
      [''{}'', ''oops'', ''{}'']\<close>
    by (simp add: pipe_ends_def pipe_stops_def json_loads_sample_def short_not_deep_brackets
        handle_event_def py_get_def py_or_def str_def Let_def)
  show ?thesis
    using s e h framing_dispatch[of \<open>[''{}'', ''oops'', ''{}'', ''{}'']\<close>
        \<open>[''{}\<newline>oo'', ''ps\<newline>{}\<newline>{'', ''}'']\<close>
        utf8_decode json_loads_sample handle_event initial_world]
    by (simp add: nl_def initial_world_def processed_until_all)
qed

text \<open>
  As stated the claim counts \<open>Rn\<close> among the records to dispatch. For \<open>{}\<close>, a
  newline and \<open>{}\<close> both records are valid JSON and one event is dispatched. And for
  \<open>{"reasons":5}\<close> and \<open>{}\<close>, a newline after each, both are valid JSON and the second
  is not dispatched: \<open>handle_event\<close> raises \<open>TypeError\<close> at the first and the loop ends.
  Nor is \<open>{}\<close> dispatched behind a hundred thousand opening brackets, on which
  \<open>json.loads\<close> raises \<open>RecursionError\<close>.
\<close>

theorem framing_dispatch_counterexample:
  \<open>join_nl [''{}'', ''{}''] = ''{}\<newline>{}''
   \<and> List.map_filter (decode_event utf8_decode json_loads_sample) [''{}'', ''{}''] =
       [JDict [], JDict []]
   \<and> calls (snd (snd (read_from_named_pipe utf8_decode json_loads_sample handle_event None
        [Data ''{}\<newline>{}''] initial_world))) = [JDict []]
   \<and> join_nl [''{"reasons":5}'', ''{}'', []] = ''{"reasons":5}\<newline>{}\<newline>''
   \<and> List.map_filter (decode_event utf8_decode json_loads_sample)
        [''{"reasons":5}'', ''{}'', []] = [JDict [(str ''reasons'', JInt 5)], JDict []]
   \<and> calls (snd (snd (read_from_named_pipe utf8_decode json_loads_sample handle_event None
        [Data ''{"reasons":5}\<newline>{}\<newline>''] initial_world))) =
       [JDict [(str ''reasons'', JInt 5)]]
   \<and> join_nl [deep_bytes, ''{}'', []] = deep_bytes @ ''\<newline>{}\<newline>''
   \<and> decode_event utf8_decode json_loads_sample ''{}'' = Some (JDict [])
   \<and> calls (snd (snd (read_from_named_pipe utf8_decode json_loads_sample handle_event None
        [Data (deep_bytes @ ''\<newline>{}\<newline>'')] initial_world))) = []\<close>
proof -
  have a: \<open>join_nl [''{}'', ''{}''] = ''{}\<newline>{}''
   \<and> List.map_filter (decode_event utf8_decode json_loads_sample) [''{}'', ''{}''] =
       [JDict [], JDict []]
   \<and> calls (snd (snd (read_from_named_pipe utf8_decode json_loads_sample handle_event None
        [Data ''{}\<newline>{}''] initial_world))) = [JDict []]
   \<and> join_nl [''{"reasons":5}'', ''{}'', []] = ''{"reasons":5}\<newline>{}\<newline>''
   \<and> List.map_filter (decode_event utf8_decode json_loads_sample)
        [''{"reasons":5}'', ''{}'', []] = [JDict [(str ''reasons'', JInt 5)], JDict []]
   \<and> calls (snd (snd (read_from_named_pipe utf8_decode json_loads_sample handle_event None
        [Data ''{"reasons":5}\<newline>{}\<newline>''] initial_world))) =
       [JDict [(str ''reasons'', JInt 5)]]
   \<and> decode_event utf8_decode json_loads_sample ''{}'' = Some (JDict [])\<close>
    by (simp add: decode_event_def run_simps)
  have b: \<open>join_nl [deep_bytes, ''{}'', []] = deep_bytes @ ''\<newline>{}\<newline>''
   \<and> calls (snd (snd (read_from_named_pipe utf8_decode json_loads_sample handle_event None
        [Data (deep_bytes @ ''\<newline>{}\<newline>'')] initial_world))) = []\<close>
    by (simp add: sample_pipe_deep nl_def)
  from a b show ?thesis by blast
qed

text \<open>
  \<^bold>\<open>C2\<close> (amended). Let no record that a newline ends in the chunks end the loop (neither
  \<open>json.loads\<close> on it nor the handler on its event raises an exception other than
  \<open>JSONDecodeError\<close> and \<open>UnicodeDecodeError\<close>). Then the loop is reading when the stream
  ends (the next \<open>ReadFile\<close> raises); the buffer is then what follows the last newline of
  the concatenation of the chunks; the events dispatched are those of the records before
  it, so the trailing bytes are never dispatched; and the records, each with its newline,
  followed by the reader's buffer are the concatenation: no byte but the separators is
  dropped.
\<close>

theorem stream_end_buffer:
  assumes "\<not> list_ex (pipe_ends decode loads h) (butlast (split_nl (concat chunks)))"
  shows "fst (read_from_named_pipe decode loads h None (map Data chunks) w) = Reading
         \<and> fst (snd (read_from_named_pipe decode loads h None (map Data chunks @ [Raises e]) w)) =
             after_last_nl (concat chunks)
         \<and> calls (snd (snd (read_from_named_pipe decode loads h None
              (map Data chunks @ [Raises e]) w))) =
             calls w @ List.map_filter (decode_event decode loads)
               (butlast (split_nl (concat chunks)))
         \<and> concat (map (\<lambda>r. r @ [nl]) (butlast (split_nl (concat chunks))))
             @ fst (snd (read_from_named_pipe decode loads h None
                 (map Data chunks @ [Raises e]) w)) = concat chunks"
proof -
  let ?w = "print Connected (print Connecting w)"
  let ?P = "pipe_loop decode loads h (map Data chunks) [] ?w"
  let ?evs = "List.map_filter (decode_event decode loads) (butlast (split_nl (concat chunks)))"
  have r: "fst ?P = Reading"
    using pipe_loop_data_Reading[of "[]" decode loads h chunks ?w] assms by simp
  have b: "fst (snd ?P) = after_last_nl (concat chunks)"
    using pipe_loop_data_buffer[of "[]" decode loads h chunks ?w] r by simp
  have c: "calls (snd (snd ?P)) = calls w @ ?evs"
    using pipe_loop_data_calls[of "[]" decode loads h chunks ?w] assms
    by (simp add: processed_until_all)
  show ?thesis
    using r b c
    by (simp add: read_from_named_pipe_def pipe_loop_then_raises[OF r] records_then_tail)
qed

theorem stream_end_buffer_witness:
  \<open>fst (read_from_named_pipe utf8_decode json_loads_sample handle_event None
      [Data ''{}\<newline>oo'', Data ''ps\<newline>{}\<newline>ab''] initial_world) = Reading
   \<and> fst (snd (read_from_named_pipe utf8_decode json_loads_sample handle_event None
      [Data ''{}\<newline>oo'', Data ''ps\<newline>{}\<newline>ab'', Raises PipeError] initial_world)) = ''ab''
   \<and> calls (snd (snd (read_from_named_pipe utf8_decode json_loads_sample handle_event None
      [Data ''{}\<newline>oo'', Data ''ps\<newline>{}\<newline>ab'', Raises PipeError] initial_world))) =
       [JDict [], JDict []]\<close>
proof -
  have s: \<open>split_nl (concat [''{}\<newline>oo'', ''ps\<newline>{}\<newline>ab'']) = [''{}'', ''oops'', ''{}'', ''ab'']\<close>
    by (simp add: nl_def)
  have e: \<open>List.map_filter (decode_event utf8_decode json_loads_sample) [''{}'', ''oops'', ''{}''] =
      [JDict [], JDict []]\<close>
    by (simp add: decode_event_def json_loads_sample_def short_not_deep_brackets str_def Let_def)
  have n: \<open>\<not> list_ex (pipe_ends utf8_decode json_loads_sample handle_event)
      (butlast (split_nl (concat [''{}\<newline>oo'', ''ps\<newline>{}\<newline>ab''])))\<close>
    unfolding s
    by (simp add: pipe_ends_def pipe_stops_def json_loads_sample_def short_not_deep_brackets
        handle_event_def py_get_def py_or_def str_def Let_def)
  show ?thesis
    using s e stream_end_buffer[OF n, of initial_world PipeError]
    by (simp add: after_last_nl_def nl_def initial_world_def)
qed

text \<open>
  Without the condition the claim fails: on \<open>{"reasons":5}\<close> and \<open>{}\<close>, a newline after
  each, the handler's \<open>TypeError\<close> ends the loop at the first record, and the buffer is
  \<open>{}\<close> with its newline, where nothing follows the last newline of the stream.
\<close>

theorem stream_end_buffer_counterexample:
  \<open>read_from_named_pipe utf8_decode json_loads_sample handle_event None
      [Data ''{"reasons":5}\<newline>{}\<newline>'', Raises PipeError] initial_world =
     (Disconnected, ''{}\<newline>'',
      \<lparr>calls = [JDict [(str ''reasons'', JInt 5)]],
       stdout = [Connecting, Connected, Pipe_disconnected TypeError]\<rparr>)
   \<and> after_last_nl ''{"reasons":5}\<newline>{}\<newline>'' = []\<close>
  by (simp add: sample_pipe_handler_raises after_last_nl_def nl_def)

text \<open>
  \<^bold>\<open>C3\<close> (amended). A line on which \<open>json.loads\<close> raises \<open>JSONDecodeError\<close>, and a record
  on which decoding raises \<open>UnicodeDecodeError\<close> or \<open>JSONDecodeError\<close>, is dropped: no
  event is dispatched for it and the loop goes on. The line reader does on a sequence of
  lines with such a line in it what it does without the line; the extraction pass goes on
  with the bytes after such a record from the same state; and the pipe reader ends in the
  same status and the same world, whatever the chunking, with the record between two
  others as without it. In particular, with such a line between two valid JSON lines
  both valid lines are dispatched, provided the handler raises nothing on the first
  event that the reader does not swallow.
\<close>

theorem malformed_record_skipped:
  assumes "loads (py_strip l) = Inl JSONDecodeError"
    and "nl \<notin> set r" and "pipe_dropped decode loads r"
    and "A = [] \<or> last A = nl"
    and "concat chunks = A @ r @ nl # B" and "concat chunks' = A @ B"
    and "line_event loads v1 = Some e1" and "line_event loads v2 = Some e2"
    and "\<not> stdin_stops h e1"
    and "decode_event decode loads r1 = Some f1" and "decode_event decode loads r2 = Some f2"
    and "nl \<notin> set r1" and "nl \<notin> set r2"
    and "\<not> pipe_stops h f1"
    and "concat chunks'' = r1 @ nl # r @ nl # r2 @ [nl]"
  shows "read_from_stdin loads h (pre @ l # post) w = read_from_stdin loads h (pre @ post) w
       \<and> extract_pass decode loads h (r @ nl # B) w' = extract_pass decode loads h B w'
       \<and> fst (read_from_named_pipe decode loads h None (map Data chunks) w'') =
           fst (read_from_named_pipe decode loads h None (map Data chunks') w'')
       \<and> snd (snd (read_from_named_pipe decode loads h None (map Data chunks) w'')) =
           snd (snd (read_from_named_pipe decode loads h None (map Data chunks') w''))
       \<and> calls (snd (read_from_stdin loads h [v1, l, v2] w)) = calls w @ [e1, e2]
       \<and> calls (snd (snd (read_from_named_pipe decode loads h None (map Data chunks'') w''))) =
           calls w'' @ [f1, f2]"
proof -
  have a: "read_from_stdin loads h (pre @ l # post) w = read_from_stdin loads h (pre @ post) w"
    using assms(1) by (simp add: read_from_stdin_insert_skipped)
  have b: "extract_pass decode loads h (r @ nl # B) w' = extract_pass decode loads h B w'"
    using assms(2,3) by (rule extract_pass_skip)
  let ?w = "print Connected (print Connecting w'')"
  have "split_nl (A @ (r @ nl # B)) = butlast (split_nl A) @ split_nl (r @ nl # B)"
    using assms(4) by (rule split_nl_terminated_append)
  then have s1: "butlast (split_nl (concat chunks)) =
      butlast (split_nl A) @ r # butlast (split_nl B)"
    using assms(2,5) by (simp add: split_nl_append_nl butlast_append)
  have "split_nl (A @ B) = butlast (split_nl A) @ split_nl B"
    using assms(4) by (rule split_nl_terminated_append)
  then have s2: "butlast (split_nl (concat chunks')) = butlast (split_nl A) @ butlast (split_nl B)"
    using assms(6) by (simp add: butlast_append)
  have "run_records decode loads h (butlast (split_nl (concat chunks))) ?w =
      run_records decode loads h (butlast (split_nl (concat chunks'))) ?w"
    using assms(3) by (simp add: s1 s2 run_records_insert_dropped)
  then have c: "(fst (pipe_loop decode loads h (map Data chunks) [] ?w),
      snd (snd (pipe_loop decode loads h (map Data chunks) [] ?w))) =
     (fst (pipe_loop decode loads h (map Data chunks') [] ?w),
      snd (snd (pipe_loop decode loads h (map Data chunks') [] ?w)))"
    using pipe_loop_data_outcome[of "[]" decode loads h chunks ?w]
      pipe_loop_data_outcome[of "[]" decode loads h chunks' ?w]
    by simp
  have d: "calls (snd (read_from_stdin loads h [v1, l, v2] w)) = calls w @ [e1, e2]"
    using assms(1,7,8,9) stdin_dropped_not_ends[where loads = loads and l = l and h = h]
    by (simp add: calls_read_from_stdin stdin_ends_event del: read_from_stdin.simps)
  have "split_nl (concat chunks'') = [r1, r, r2, []]"
    using assms(2,12,13,15) by (simp add: split_nl_append_nl)
  then have e: "calls (snd (snd (pipe_loop decode loads h (map Data chunks'') [] ?w))) =
      calls w'' @ [f1, f2]"
    using pipe_loop_data_calls[of "[]" decode loads h chunks'' ?w]
      assms(10,11,14) pipe_dropped_not_ends[OF assms(3), of h]
    by (simp add: pipe_ends_event)
  show ?thesis
    using a b c d e by (simp add: read_from_named_pipe_def)
qed

theorem malformed_record_skipped_witness:
  \<open>read_from_stdin json_loads_sample handle_event
      [str ''{}\<newline>'', str ''oops\<newline>'', str ''{}\<newline>''] initial_world =
     (None, \<lparr>calls = [JDict [], JDict []], stdout = []\<rparr>)
   \<and> fst (read_from_named_pipe utf8_decode json_loads_sample handle_event None
        [Data ''{}\<newline>oo'', Data ''ps\<newline>{}\<newline>''] initial_world) = Reading
   \<and> snd (snd (read_from_named_pipe utf8_decode json_loads_sample handle_event None
        [Data ''{}\<newline>oo'', Data ''ps\<newline>{}\<newline>''] initial_world)) =
       \<lparr>calls = [JDict [], JDict []], stdout = [Connecting, Connected]\<rparr>
   \<and> calls (snd (snd (read_from_named_pipe utf8_decode json_loads_sample handle_event None
        [Data (''{}\<newline>'' @ [CHR 0xFF]), Data ''\<newline>{}\<newline>''] initial_world))) =
       [JDict [], JDict []]\<close>
proof -
  have 1: \<open>json_loads_sample (py_strip (str ''oops\<newline>'')) = Inl JSONDecodeError\<close>
    by (simp add: json_loads_sample_def short_not_deep_brackets str_def py_strip_def
        py_isspace_def)
  have 2: \<open>nl \<notin> set ''oops''\<close>
    by (simp add: nl_def)
  have 3: \<open>pipe_dropped utf8_decode json_loads_sample ''oops''\<close>
    by (simp add: pipe_dropped_def json_loads_sample_def short_not_deep_brackets str_def Let_def)
  have 4: \<open>''{}\<newline>'' = [] \<or> last ''{}\<newline>'' = nl\<close>
    by (simp add: nl_def)
  have 5: \<open>concat [''{}\<newline>oo'', ''ps\<newline>{}\<newline>''] = ''{}\<newline>'' @ ''oops'' @ nl # ''{}\<newline>''\<close>
    by (simp add: nl_def)
  have 6: \<open>concat [''{}\<newline>{'', ''}\<newline>''] = ''{}\<newline>'' @ ''{}\<newline>''\<close>
    by simp
  have 7: \<open>line_event json_loads_sample (str ''{}\<newline>'') = Some (JDict [])\<close>
    by (simp add: line_event_def json_loads_sample_def str_def py_strip_def py_isspace_def)
  have 8: \<open>\<not> stdin_stops handle_event (JDict [])\<close>
    by (simp add: stdin_stops_def handle_event_def py_get_def py_or_def)
  have 9: \<open>decode_event utf8_decode json_loads_sample ''{}'' = Some (JDict [])\<close>
    by (simp add: decode_event_def json_loads_sample_def str_def Let_def)
  have 10: \<open>nl \<notin> set ''{}''\<close>
    by (simp add: nl_def)
  have 11: \<open>\<not> pipe_stops handle_event (JDict [])\<close>
    by (simp add: pipe_stops_def handle_event_def py_get_def py_or_def)
  have 12: \<open>concat [''{}\<newline>oo'', ''ps\<newline>{}\<newline>''] = ''{}'' @ nl # ''oops'' @ nl # ''{}'' @ [nl]\<close>
    by (simp add: nl_def)
  have 13: \<open>nl \<notin> set [CHR 0xFF]\<close>
    by (simp add: nl_def)
  have 14: \<open>pipe_dropped utf8_decode json_loads_sample [CHR 0xFF]\<close>
    by (simp add: pipe_dropped_def Let_def)
  have 15: \<open>concat [''{}\<newline>'' @ [CHR 0xFF], ''\<newline>{}\<newline>''] = ''{}\<newline>'' @ [CHR 0xFF] @ nl # ''{}\<newline>''\<close>
    by (simp add: nl_def)
  have 16: \<open>concat [''{}\<newline>'' @ [CHR 0xFF], ''\<newline>{}\<newline>''] =
      ''{}'' @ nl # [CHR 0xFF] @ nl # ''{}'' @ [nl]\<close>
    by (simp add: nl_def)
  show ?thesis
    using sample_stdin_two sample_pipe_two
      malformed_record_skipped[where loads = json_loads_sample and decode = utf8_decode
        and l = \<open>str ''oops\<newline>''\<close>
        and h = handle_event and pre = \<open>[str ''{}\<newline>'']\<close> and post = \<open>[str ''{}\<newline>'']\<close>
        and w = initial_world and w' = initial_world and w'' = initial_world,
        OF 1 2 3 4 5 6 7 7 8 9 9 10 10 11 12]
      malformed_record_skipped[where loads = json_loads_sample and decode = utf8_decode
        and l = \<open>str ''oops\<newline>''\<close>
        and h = handle_event and pre = \<open>[]\<close> and post = \<open>[]\<close>
        and w = initial_world and w' = initial_world and w'' = initial_world,
        OF 1 13 14 4 15 6 7 7 8 9 9 10 10 11 16]
    by (simp add: initial_world_def)
qed

text \<open>
  As stated the claim covers every line that is not JSON and every pair of valid lines.
  On a hundred thousand opening brackets \<open>json.loads\<close> raises \<open>RecursionError\<close>: the
  exception leaves \<open>read_from_stdin\<close> and ends the pipe loop, and the valid line
  behind is not dispatched. And with \<open>oops\<close> between \<open>{"reasons":5}\<close> and \<open>{}\<close> the
  second valid line is not dispatched, since the handler raises \<open>TypeError\<close> on the
  first.
\<close>

theorem malformed_record_skipped_counterexample:
  \<open>line_event json_loads_sample (deep_brackets @ [10]) = None
   \<and> read_from_stdin json_loads_sample handle_event
      [str ''{}\<newline>'', deep_brackets @ [10], str ''{}\<newline>''] initial_world =
     (Some RecursionError, \<lparr>calls = [JDict []], stdout = []\<rparr>)
   \<and> read_from_named_pipe utf8_decode json_loads_sample handle_event None
      [Data (deep_bytes @ ''\<newline>{}\<newline>'')] initial_world =
     (Disconnected, ''{}\<newline>'',
      \<lparr>calls = [], stdout = [Connecting, Connected, Pipe_disconnected RecursionError]\<rparr>)
   \<and> read_from_named_pipe utf8_decode json_loads_sample handle_event None
      [Data ''{"reasons":5}\<newline>oops\<newline>{}\<newline>''] initial_world =
     (Disconnected, ''oops\<newline>{}\<newline>'',
      \<lparr>calls = [JDict [(str ''reasons'', JInt 5)]],
       stdout = [Connecting, Connected, Pipe_disconnected TypeError]\<rparr>)\<close>
proof -
  have a: \<open>line_event json_loads_sample (deep_brackets @ [10]) = None\<close>
    by (simp add: line_event_def py_strip_deep_brackets loads_deep_brackets)
  have b: \<open>read_from_named_pipe utf8_decode json_loads_sample handle_event None
      [Data ''{"reasons":5}\<newline>oops\<newline>{}\<newline>''] initial_world =
     (Disconnected, ''oops\<newline>{}\<newline>'',
      \<lparr>calls = [JDict [(str ''reasons'', JInt 5)]],
       stdout = [Connecting, Connected, Pipe_disconnected TypeError]\<rparr>)\<close>
    by (simp add: run_simps)
  from a b sample_stdin_deep sample_pipe_deep show ?thesis by blast
qed

text \<open>
  \<^bold>\<open>C4\<close> (amended). Each decoded event is passed to the handler once, in the order of
  receipt, until the loop ends. An exception raised by the handler leaves the line reader
  unless it is a \<open>JSONDecodeError\<close>, which is swallowed. It leaves the pipe reader only
  when it does not derive from \<open>Exception\<close>: a \<open>JSONDecodeError\<close> or
  \<open>UnicodeDecodeError\<close> is swallowed and the loop goes on, any other \<open>Exception\<close> is
  caught at line 66, printed as a disconnection, and ends the loop.
\<close>

theorem handler_exception_fate:
  assumes "h ev = Inl e"
    and "line_event loads l = Some ev"
    and "decode_event decode loads r = Some ev" and "nl \<notin> set r"
  shows "calls (snd (read_from_stdin loads h ls w)) =
           calls w @ List.map_filter (line_event loads) (processed_until (stdin_ends loads h) ls)
       \<and> calls (snd (snd (pipe_loop decode loads h (map Data cs) [] w))) =
           calls w @ List.map_filter (decode_event decode loads)
             (processed_until (pipe_ends decode loads h) (butlast (split_nl (concat cs))))
       \<and> read_from_stdin loads h (l # ls) w =
           (if e = JSONDecodeError
            then read_from_stdin loads h ls (w\<lparr>calls := calls w @ [ev]\<rparr>)
            else (Some e, w\<lparr>calls := calls w @ [ev]\<rparr>))
       \<and> pipe_loop decode loads h (Data (r @ [nl]) # rs) [] w =
           (if e = JSONDecodeError \<or> e = UnicodeDecodeError
            then pipe_loop decode loads h rs [] (w\<lparr>calls := calls w @ [ev]\<rparr>)
            else if is_Exception e
            then (Disconnected, [], print (Pipe_disconnected e) (w\<lparr>calls := calls w @ [ev]\<rparr>))
            else (Propagated e, [], w\<lparr>calls := calls w @ [ev]\<rparr>))"
proof -
  have a: "calls (snd (read_from_stdin loads h ls w)) =
      calls w @ List.map_filter (line_event loads) (processed_until (stdin_ends loads h) ls)"
    by (rule calls_read_from_stdin)
  have b: "calls (snd (snd (pipe_loop decode loads h (map Data cs) [] w))) =
      calls w @ List.map_filter (decode_event decode loads)
        (processed_until (pipe_ends decode loads h) (butlast (split_nl (concat cs))))"
    using pipe_loop_data_calls[of "[]" decode loads h cs w] by simp
  have ch: "call_handler h ev w = (Some e, w\<lparr>calls := calls w @ [ev]\<rparr>)"
    using assms(1) by (simp add: call_handler_def)
  have c: "read_from_stdin loads h (l # ls) w =
      (if e = JSONDecodeError
       then read_from_stdin loads h ls (w\<lparr>calls := calls w @ [ev]\<rparr>)
       else (Some e, w\<lparr>calls := calls w @ [ev]\<rparr>))"
    using assms(1) ch by (simp add: read_from_stdin_event[OF assms(2)] del: read_from_stdin.simps)
  have p: "process_record decode loads h r w =
      (if e = JSONDecodeError \<or> e = UnicodeDecodeError then None else Some e,
       w\<lparr>calls := calls w @ [ev]\<rparr>)"
    using ch by (simp add: process_record_valid[OF assms(3)])
  have d: "pipe_loop decode loads h (Data (r @ [nl]) # rs) [] w =
      (if e = JSONDecodeError \<or> e = UnicodeDecodeError
       then pipe_loop decode loads h rs [] (w\<lparr>calls := calls w @ [ev]\<rparr>)
       else if is_Exception e
       then (Disconnected, [], print (Pipe_disconnected e) (w\<lparr>calls := calls w @ [ev]\<rparr>))
       else (Propagated e, [], w\<lparr>calls := calls w @ [ev]\<rparr>))"
    by (simp add: extract_pass_single[OF assms(4)] p on_exception_def)
  from a b c d show ?thesis by blast
qed

theorem handler_exception_fate_witness:
  \<open>read_from_stdin json_loads_sample handle_event
      [str ''{"reasons":5}\<newline>'', str ''{}\<newline>''] initial_world =
     (Some TypeError, \<lparr>calls = [JDict [(str ''reasons'', JInt 5)]], stdout = []\<rparr>)
   \<and> pipe_loop utf8_decode json_loads_sample handle_event
      [Data ''{"reasons":5}\<newline>'', Data ''{}\<newline>''] [] initial_world =
     (Disconnected, [],
      \<lparr>calls = [JDict [(str ''reasons'', JInt 5)]], stdout = [Pipe_disconnected TypeError]\<rparr>)\<close>
proof -
  have 1: \<open>handle_event (JDict [(str ''reasons'', JInt 5)]) = Inl TypeError\<close>
    by (simp add: handle_event_def py_get_def str_def)
  have 2: \<open>line_event json_loads_sample (str ''{"reasons":5}\<newline>'') =
      Some (JDict [(str ''reasons'', JInt 5)])\<close>
    by (simp add: line_event_def json_loads_sample_def short_not_deep_brackets str_def
        py_strip_def py_isspace_def)
  have 3: \<open>decode_event utf8_decode json_loads_sample ''{"reasons":5}'' =
      Some (JDict [(str ''reasons'', JInt 5)])\<close>
    by (simp add: decode_event_def json_loads_sample_def str_def Let_def)
  have 4: \<open>nl \<notin> set ''{"reasons":5}''\<close>
    by (simp add: nl_def)
  show ?thesis
    using handler_exception_fate[where h = handle_event
        and ev = \<open>JDict [(str ''reasons'', JInt 5)]\<close> and e = TypeError
        and loads = json_loads_sample and l = \<open>str ''{"reasons":5}\<newline>''\<close>
        and decode = utf8_decode and r = \<open>''{"reasons":5}''\<close>
        and ls = \<open>[str ''{}\<newline>'']\<close> and w = initial_world
        and cs = \<open>[]\<close> and rs = \<open>[Data ''{}\<newline>'']\<close>, OF 1 2 3 4]
    by (simp add: initial_world_def print_def nl_def)
qed

text \<open>
  The \<open>TypeError\<close> that \<open>handle_event\<close> raises on \<open>{"reasons":5}\<close> does not leave the
  pipe reader: the function returns after printing the disconnection, and the record
  behind it is never dispatched.
\<close>

theorem handler_exception_fate_counterexample:
  \<open>handle_event (JDict [(str ''reasons'', JInt 5)]) = Inl TypeError
   \<and> read_from_named_pipe utf8_decode json_loads_sample handle_event None
       [Data ''{"reasons":5}\<newline>{}\<newline>''] initial_world =
      (Disconnected, ''{}\<newline>'',
       \<lparr>calls = [JDict [(str ''reasons'', JInt 5)]],
        stdout = [Connecting, Connected, Pipe_disconnected TypeError]\<rparr>)\<close>
  by (simp add: run_simps)

text \<open>
  \<^bold>\<open>C5\<close> (amended). An exception raised by \<open>ReadFile\<close> that derives from \<open>Exception\<close>
  (how the pipe reports its end) is printed and ends the loop. A read that returns no
  bytes does not: the loop reads again. The loop is still reading exactly when every read
  returned data and no record extracted ended the loop; so besides a read exception,
  what ends the loop is an exception other than \<open>JSONDecodeError\<close> and
  \<open>UnicodeDecodeError\<close> raised in the extraction pass, by \<open>json.loads\<close> on a record or by
  the handler on an event.
\<close>

theorem loop_termination:
  assumes "is_Exception e" and "nl \<notin> set b"
  shows "pipe_loop decode loads h (Raises e # rs) b w =
           (Disconnected, b, print (Pipe_disconnected e) w)
       \<and> pipe_loop decode loads h (Data [] # rs) b w = pipe_loop decode loads h rs b w
       \<and> (fst (pipe_loop decode loads h rs' [] w) = Reading) =
           (\<exists>cs. rs' = map Data cs \<and>
              \<not> list_ex (pipe_ends decode loads h) (butlast (split_nl (concat cs))))"
proof -
  have a: "pipe_loop decode loads h (Raises e # rs) b w =
      (Disconnected, b, print (Pipe_disconnected e) w)"
    using assms(1) by (simp add: on_exception_def)
  have b: "pipe_loop decode loads h (Data [] # rs) b w = pipe_loop decode loads h rs b w"
    using assms(2) by (simp add: extract_pass_no_nl)
  have c: "(fst (pipe_loop decode loads h rs' [] w) = Reading) =
      (\<exists>cs. rs' = map Data cs \<and>
         \<not> list_ex (pipe_ends decode loads h) (butlast (split_nl (concat cs))))"
  proof
    assume r: "fst (pipe_loop decode loads h rs' [] w) = Reading"
    then obtain cs where cs: "rs' = map Data cs"
      using pipe_loop_Reading_data by blast
    with r have "\<not> list_ex (pipe_ends decode loads h) (butlast (split_nl (concat cs)))"
      using pipe_loop_data_Reading[of "[]" decode loads h cs w] by simp
    with cs show "\<exists>cs. rs' = map Data cs \<and>
         \<not> list_ex (pipe_ends decode loads h) (butlast (split_nl (concat cs)))"
      by blast
  next
    assume "\<exists>cs. rs' = map Data cs \<and>
         \<not> list_ex (pipe_ends decode loads h) (butlast (split_nl (concat cs)))"
    then show "fst (pipe_loop decode loads h rs' [] w) = Reading"
      using pipe_loop_data_Reading[of "[]" decode loads h _ w] by auto
  qed
  from a b c show ?thesis by blast
qed

theorem loop_termination_witness:
  \<open>pipe_loop utf8_decode json_loads_sample handle_event
      [Data [], Raises PipeError, Data ''{}\<newline>''] ''ab'' initial_world =
     (Disconnected, ''ab'', \<lparr>calls = [], stdout = [Pipe_disconnected PipeError]\<rparr>)\<close>
proof -
  have 1: "is_Exception PipeError" by simp
  have 2: \<open>nl \<notin> set ''ab''\<close> by (simp add: nl_def)
  show ?thesis
    using loop_termination[where e = PipeError and b = \<open>''ab''\<close> and decode = utf8_decode
        and loads = json_loads_sample and h = handle_event and w = initial_world
        and rs = \<open>[Raises PipeError, Data ''{}\<newline>'']\<close>, OF 1 2]
      loop_termination[where e = PipeError and b = \<open>''ab''\<close> and decode = utf8_decode
        and loads = json_loads_sample and h = handle_event and w = initial_world
        and rs = \<open>[Data ''{}\<newline>'']\<close>, OF 1 2]
    by (simp add: initial_world_def print_def)
qed

text \<open>
  After a read of length zero the loop is reading and dispatches the record of the next
  chunk; and a handler exception and a \<open>RecursionError\<close> of \<open>json.loads\<close>, which are no
  read conditions, end the loop.
\<close>

theorem loop_termination_counterexample:
  \<open>read_from_named_pipe utf8_decode json_loads_sample handle_event None
      [Data [], Data ''{}\<newline>''] initial_world =
     (Reading, [], \<lparr>calls = [JDict []], stdout = [Connecting, Connected]\<rparr>)
   \<and> read_from_named_pipe utf8_decode json_loads_sample handle_event None
      [Data ''{"reasons":5}\<newline>''] initial_world =
     (Disconnected, [],
      \<lparr>calls = [JDict [(str ''reasons'', JInt 5)]],
       stdout = [Connecting, Connected, Pipe_disconnected TypeError]\<rparr>)
   \<and> read_from_named_pipe utf8_decode json_loads_sample handle_event None
      [Data (deep_bytes @ ''\<newline>{}\<newline>'')] initial_world =
     (Disconnected, ''{}\<newline>'',
      \<lparr>calls = [], stdout = [Connecting, Connected, Pipe_disconnected RecursionError]\<rparr>)\<close>
proof -
  have \<open>read_from_named_pipe utf8_decode json_loads_sample handle_event None
      [Data [], Data ''{}\<newline>''] initial_world =
     (Reading, [], \<lparr>calls = [JDict []], stdout = [Connecting, Connected]\<rparr>)
   \<and> read_from_named_pipe utf8_decode json_loads_sample handle_event None
      [Data ''{"reasons":5}\<newline>''] initial_world =
     (Disconnected, [],
      \<lparr>calls = [JDict [(str ''reasons'', JInt 5)]],
       stdout = [Connecting, Connected, Pipe_disconnected TypeError]\<rparr>)\<close>
    by (simp add: run_simps)
  with sample_pipe_deep show ?thesis by blast
qed

text \<open>
  \<^bold>\<open>C6\<close> (amended). Let the records be ended by a newline each in the byte stream, decode
  as UTF-8 to the texts that the line transport delivers, and be read by \<open>json.loads\<close>
  as they are read stripped (no leading or trailing white space that \<open>str.strip\<close>
  removes and JSON does not allow); let \<open>json.loads\<close> reject the empty string and raise
  no \<open>UnicodeDecodeError\<close>, as it does, and the handler never raise
  \<open>UnicodeDecodeError\<close>. Then the line reader on the lines and the pipe reader on any
  chunking of the bytes call the handler with the same sequence of events.
\<close>

theorem transport_equivalence:
  assumes "map decode Rs = map Some Ts"
    and "\<forall>r\<in>set Rs. nl \<notin> set r"
    and "\<forall>t\<in>set Ts. loads (py_strip t) = loads t"
    and "\<forall>t\<in>set Ts. loads t \<noteq> Inl UnicodeDecodeError"
    and "loads [] = Inl JSONDecodeError"
    and "\<forall>ev. h ev \<noteq> Inl UnicodeDecodeError"
    and "concat chunks = concat (map (\<lambda>r. r @ [nl]) Rs)"
  shows "calls (snd (read_from_stdin loads h (map (\<lambda>t. t @ [10]) Ts) w)) =
         calls (snd (snd (read_from_named_pipe decode loads h None (map Data chunks) w)))"
proof -
  let ?w = "print Connected (print Connecting w)"
  have "split_nl (concat chunks) = Rs @ [[]]"
    using assms(2,7) by (simp add: split_nl_terminated_records)
  then have "calls (snd (snd (pipe_loop decode loads h (map Data chunks) [] ?w))) =
      calls w @ List.map_filter (decode_event decode loads)
        (processed_until (pipe_ends decode loads h) Rs)"
    using pipe_loop_data_calls[of "[]" decode loads h chunks ?w] by simp
  also have "\<dots> = calls w @ List.map_filter (line_event loads)
      (processed_until (stdin_ends loads h) (map (\<lambda>t. t @ [10]) Ts))"
    using transports_agree[where loads = loads and h = h and decode = decode and Rs = Rs
        and Ts = Ts] assms(1,3,4,5,6) by simp
  also have "\<dots> = calls (snd (read_from_stdin loads h (map (\<lambda>t. t @ [10]) Ts) w))"
    by (simp add: calls_read_from_stdin)
  finally show ?thesis
    by (simp add: read_from_named_pipe_def)
qed

theorem transport_equivalence_witness:
  \<open>calls (snd (read_from_stdin json_loads_sample handle_event
      [str ''{}\<newline>'', str ''oops\<newline>'', str ''{}\<newline>''] initial_world)) = [JDict [], JDict []]
   \<and> calls (snd (snd (read_from_named_pipe utf8_decode json_loads_sample handle_event None
      [Data ''{}\<newline>oo'', Data ''ps\<newline>{}\<newline>''] initial_world))) = [JDict [], JDict []]\<close>
proof -
  have 1: \<open>map utf8_decode [''{}'', ''oops'', ''{}''] =
      map Some [str ''{}'', str ''oops'', str ''{}'']\<close>
    by (simp add: str_def Let_def)
  have 2: \<open>\<forall>r\<in>set [''{}'', ''oops'', ''{}'']. nl \<notin> set r\<close>
    by (simp add: nl_def)
  have 3: \<open>\<forall>t\<in>set [str ''{}'', str ''oops'', str ''{}''].
      json_loads_sample (py_strip t) = json_loads_sample t\<close>
    by (simp add: str_def py_strip_def py_isspace_def)
  have 4: \<open>json_loads_sample [] = Inl JSONDecodeError\<close>
    by (simp add: json_loads_sample_def short_not_deep_brackets str_def)
  have 8: \<open>\<forall>t\<in>set [str ''{}'', str ''oops'', str ''{}''].
      json_loads_sample t \<noteq> Inl UnicodeDecodeError\<close>
    by (simp add: json_loads_sample_def short_not_deep_brackets str_def)
  have 5: \<open>\<forall>ev. handle_event ev \<noteq> Inl UnicodeDecodeError\<close>
    using handle_event_raises by fastforce
  have 6: \<open>concat [''{}\<newline>oo'', ''ps\<newline>{}\<newline>''] =
      concat (map (\<lambda>r. r @ [nl]) [''{}'', ''oops'', ''{}''])\<close>
    by (simp add: nl_def)
  have 7: \<open>calls (snd (snd (read_from_named_pipe utf8_decode json_loads_sample handle_event None
      [Data ''{}\<newline>oo'', Data ''ps\<newline>{}\<newline>''] initial_world))) = [JDict [], JDict []]\<close>
    by (simp add: run_simps)
  show ?thesis
    using transport_equivalence[where decode = utf8_decode and loads = json_loads_sample
        and h = handle_event and w = initial_world, OF 1 2 3 8 4 5 6] 7
    by (simp add: str_def)
qed

text \<open>
  A form feed before \<open>{}\<close> is stripped by the line reader, which dispatches the event,
  and is passed to \<open>json.loads\<close> by the pipe reader, which dispatches nothing. And of two
  records joined by a newline the pipe reader dispatches the first only.
\<close>

theorem transport_equivalence_counterexample:
  \<open>calls (snd (read_from_stdin json_loads_sample handle_event
      [12 # str ''{}\<newline>''] initial_world)) = [JDict []]
   \<and> utf8_decode (CHR 0x0C # ''{}'') = Some (12 # str ''{}'')
   \<and> calls (snd (snd (read_from_named_pipe utf8_decode json_loads_sample handle_event None
      [Data (CHR 0x0C # ''{}\<newline>'')] initial_world))) = []
   \<and> calls (snd (read_from_stdin json_loads_sample handle_event
      [str ''{}\<newline>'', str ''{}\<newline>''] initial_world)) = [JDict [], JDict []]
   \<and> calls (snd (snd (read_from_named_pipe utf8_decode json_loads_sample handle_event None
      [Data ''{}\<newline>{}''] initial_world))) = [JDict []]\<close>
  by (simp add: run_simps py_strip_def py_isspace_def)

text \<open>
  \<^bold>\<open>C7\<close>. Whenever the loop is back at \<open>ReadFile\<close> the buffer contains no newline: it is
  what follows the last newline of the data read so far, the bytes of one incomplete
  record. The same holds after every extraction pass that an exception does not leave,
  whatever the buffer it started from.
\<close>

theorem buffer_has_no_newline:
  assumes "fst (read_from_named_pipe decode loads h opened rs w) = Reading"
    and "fst (extract_pass decode loads h b w') = None"
  shows "nl \<notin> set (fst (snd (read_from_named_pipe decode loads h opened rs w)))
       \<and> (\<exists>cs. rs = map Data cs \<and>
            fst (snd (read_from_named_pipe decode loads h opened rs w)) =
              after_last_nl (concat cs))
       \<and> nl \<notin> set (fst (snd (extract_pass decode loads h b w')))"
proof -
  let ?w = "print Connected (print Connecting w)"
  have o: "opened = None"
    using assms(1) by (cases opened) (simp_all add: read_from_named_pipe_def)
  then have r: "fst (pipe_loop decode loads h rs [] ?w) = Reading"
    using assms(1) by (simp add: read_from_named_pipe_def)
  then obtain cs where cs: "rs = map Data cs"
    using pipe_loop_Reading_data by blast
  have b: "fst (snd (pipe_loop decode loads h rs [] ?w)) = after_last_nl (concat cs)"
    using pipe_loop_data_buffer[of "[]" decode loads h cs ?w] r cs by simp
  have "fst (snd (extract_pass decode loads h b w')) = last (split_nl b)"
    using assms(2) by (rule extract_pass_buffer)
  then have e: "nl \<notin> set (fst (snd (extract_pass decode loads h b w')))"
    by (simp add: last_split_nl_no_nl)
  show ?thesis
    using o b cs e by (auto simp: read_from_named_pipe_def after_last_nl_no_nl)
qed

theorem buffer_has_no_newline_witness:
  \<open>nl \<notin> set (fst (snd (read_from_named_pipe utf8_decode json_loads_sample handle_event None
      [Data ''{}\<newline>oo'', Data ''ps\<newline>{}\<newline>ab''] initial_world)))
   \<and> nl \<notin> set (fst (snd (extract_pass utf8_decode json_loads_sample handle_event
      ''{}\<newline>oops\<newline>ab'' initial_world)))\<close>
proof -
  have 1: \<open>fst (read_from_named_pipe utf8_decode json_loads_sample handle_event None
      [Data ''{}\<newline>oo'', Data ''ps\<newline>{}\<newline>ab''] initial_world) = Reading\<close>
    by (simp add: sample_run_reading)
  have 2: \<open>fst (extract_pass utf8_decode json_loads_sample handle_event
      ''{}\<newline>oops\<newline>ab'' initial_world) = None\<close>
    by (simp add: run_simps)
  show ?thesis
    using buffer_has_no_newline[OF 1 2] by simp
qed

text \<open>
  \<^bold>\<open>C8\<close>. On the event \<open>{}\<close> the handler's four variables are the empty list, the empty
  string, the empty string and \<open>False\<close>, and the handler prints nothing.
\<close>

theorem defaults_of_empty_event:
  "event_fields (JDict []) =
     Inr \<lparr>reasons = JList [], filename = JStr [], timestamp = JStr [], is_dir = JBool False\<rparr>
   \<and> handle_event (JDict []) = Inr []"
  by (simp add: handle_event_def py_get_def py_or_def)

text \<open>
  \<^bold>\<open>C9\<close>. The file name is the value of \<open>fullPath\<close> when the key is present with a truthy
  value, and otherwise the value of \<open>fileName\<close>, the empty string when that key is
  absent; in particular when \<open>fullPath\<close> is absent, \<open>None\<close> or the empty string.
\<close>

theorem filename_fallback:
  assumes "event_fields (JDict d) = Inr f"
  shows "filename f =
           (case map_of d (str ''fullPath'') of
              None \<Rightarrow> py_get d (str ''fileName'') (JStr [])
            | Some v \<Rightarrow> if truthy v then v else py_get d (str ''fileName'') (JStr []))
       \<and> (map_of d (str ''fullPath'') = None \<or> map_of d (str ''fullPath'') = Some JNull
            \<or> map_of d (str ''fullPath'') = Some (JStr []) \<longrightarrow>
          filename f = py_get d (str ''fileName'') (JStr []))"
  using assms by (auto simp: py_get_def py_or_def split: option.splits)

theorem filename_fallback_witness:
  \<open>filename \<lparr>reasons = JList [], filename = JStr (str ''x''), timestamp = JStr [],
      is_dir = JBool False\<rparr> = JStr (str ''x'')
   \<and> event_fields (JDict [(str ''fullPath'', JStr []), (str ''fileName'', JStr (str ''x''))]) =
      Inr \<lparr>reasons = JList [], filename = JStr (str ''x''), timestamp = JStr [],
        is_dir = JBool False\<rparr>\<close>
proof -
  have 1: \<open>event_fields (JDict [(str ''fullPath'', JStr []), (str ''fileName'', JStr (str ''x''))]) =
      Inr \<lparr>reasons = JList [], filename = JStr (str ''x''), timestamp = JStr [],
        is_dir = JBool False\<rparr>\<close>
    by (simp add: py_get_def py_or_def str_def)
  have 2: \<open>map_of [(str ''fullPath'', JStr []), (str ''fileName'', JStr (str ''x''))]
      (str ''fullPath'') = Some (JStr [])\<close>
    by (simp add: str_def)
  show ?thesis
    using filename_fallback[OF 1] 1 2 by (simp add: py_get_def str_def)
qed

text \<open>
  \<^bold>\<open>C10\<close>. In the line reader a \<open>JSONDecodeError\<close> raised by the handler is swallowed:
  the call is made and the loop goes on with the next line.
\<close>

theorem stdin_swallows_handler_decode_error:
  assumes "py_strip l \<noteq> []" and "loads (py_strip l) = Inr ev" and "h ev = Inl JSONDecodeError"
  shows "read_from_stdin loads h (l # ls) w =
           read_from_stdin loads h ls (w\<lparr>calls := calls w @ [ev]\<rparr>)"
  using assms by (simp add: call_handler_def)

theorem stdin_swallows_handler_decode_error_witness:
  \<open>read_from_stdin json_loads_sample (\<lambda>ev. Inl JSONDecodeError :: py_exc + event_line list)
      [str ''{}\<newline>'', str ''{}\<newline>''] initial_world =
     (None, \<lparr>calls = [JDict [], JDict []], stdout = []\<rparr>)\<close>
proof -
  have 1: \<open>py_strip (str ''{}\<newline>'') \<noteq> []\<close>
    by (simp add: str_def py_strip_def py_isspace_def)
  have 2: \<open>json_loads_sample (py_strip (str ''{}\<newline>'')) = Inr (JDict [])\<close>
    by (simp add: json_loads_sample_def str_def py_strip_def py_isspace_def)
  show ?thesis
    using stdin_swallows_handler_decode_error[where loads = json_loads_sample
        and l = \<open>str ''{}\<newline>''\<close> and ev = \<open>JDict []\<close>
        and h = \<open>\<lambda>ev. Inl JSONDecodeError :: py_exc + event_line list\<close>
        and ls = \<open>[str ''{}\<newline>'']\<close> and w = initial_world, OF 1 2]
    by (simp add: initial_world_def json_loads_sample_def str_def py_strip_def py_isspace_def
        call_handler_def)
qed

end
